theory Spec2Isabelle
  imports Main "HOL-Library.Word"
begin

unbundle bit_operations_syntax

section \<open>Data model\<close>

text \<open>
  The declarations of \<^verbatim>\<open>Packet\<close>, \<^verbatim>\<open>CarAtom\<close> and \<^verbatim>\<open>CurrentState\<close> live in headers
  (\<^verbatim>\<open>packet.h\<close>, \<^verbatim>\<open>stream.h\<close>) that are not part of the sources at hand; the records below
  hold exactly the fields that \<^verbatim>\<open>packet.c\<close> and \<^verbatim>\<open>display.c\<close> read and write.
  \<^verbatim>\<open>int\<close> fields are HOL integers (no arithmetic beyond \<^verbatim>\<open>car - 1\<close> is done on them),
  \<^verbatim>\<open>unsigned int\<close> values are 32-bit words, payload bytes are 8-bit words.
\<close>

type_synonym byte = "8 word"
type_synonym u32 = "32 word"

record Packet =
  car :: int
  type :: int
  data :: int
  len :: int
  payload :: "byte list"

text \<open>
  \<^verbatim>\<open>CarAtom\<close>: the C fields are \<^verbatim>\<open>data\<close> and \<^verbatim>\<open>text\<close>; \<open>atom_text\<close> is the C string held
  in the fixed buffer, that is the bytes before the first NUL.
\<close>

record CarAtom =
  atom_data :: int
  atom_text :: "byte list"

record CurrentState =
  host :: "byte list"
  cookie :: "byte list"
  key :: u32
  decryption :: u32
  frame :: u32
  event_no :: u32
  event_type :: int
  epoch_time :: int
  remaining_time :: u32
  lap :: int
  flag :: int
  num_cars :: int
  car_position :: "int list"
  car_info :: "CarAtom list list"

text \<open>
  The enumerators of \<^verbatim>\<open>CarPacketType\<close> and \<^verbatim>\<open>SystemPacketType\<close> and the size of the
  \<^verbatim>\<open>text\<close> buffer of a \<^verbatim>\<open>CarAtom\<close> are declared in the missing headers, so they are
  parameters of the model.  \<open>catalogue_ok\<close> says what the C compiler guarantees of them:
  the case labels of one \<^verbatim>\<open>switch\<close> are pairwise different.
\<close>

record Catalogue =
  CAR_POSITION_UPDATE :: int
  CAR_POSITION_HISTORY :: int
  LAST_CAR_PACKET :: int
  SYS_EVENT_ID :: int
  SYS_KEY_FRAME :: int
  SYS_WEATHER :: int
  SYS_TRACK_STATUS :: int
  SYS_COPYRIGHT :: int
  SYS_NOTICE :: int
  TEXT_SIZE :: nat

definition catalogue_ok :: "Catalogue \<Rightarrow> bool" where
  "catalogue_ok cat \<longleftrightarrow>
     CAR_POSITION_UPDATE cat \<noteq> CAR_POSITION_HISTORY cat \<and>
     distinct [SYS_EVENT_ID cat, SYS_KEY_FRAME cat, SYS_WEATHER cat,
               SYS_TRACK_STATUS cat, SYS_COPYRIGHT cat, SYS_NOTICE cat]"

text \<open>
  Reading or writing outside an array is undefined behaviour in C; the model makes it a
  result of its own.
\<close>

datatype fault = ReadOutOfBounds | WriteOutOfBounds

text \<open>
  What a handler asks of its collaborators, in call order.  The routines of
  \<^verbatim>\<open>display.c\<close> (\<^verbatim>\<open>clear_board\<close>, \<^verbatim>\<open>clear_car\<close>, \<^verbatim>\<open>update_car\<close>, \<^verbatim>\<open>update_cell\<close>,
  \<^verbatim>\<open>update_status\<close>, \<^verbatim>\<open>close_popup\<close>) read \<^verbatim>\<open>CurrentState\<close> and never assign to it, so a
  call to one of them is recorded and leaves the state as it is.  The terminal they draw
  on (the curses windows, and the test of the terminal's size in \<^verbatim>\<open>clear_board\<close> that ends
  the program) is outside the model.
\<close>

datatype notice = BeginEvent u32 int | Message "byte list"

datatype event =
    ObtainDecryptionKey "byte list" u32 "byte list"
  | ResetDecryption
  | ObtainKeyFrame "byte list" u32
  | ClearBoard
  | ClearCar int
  | UpdateCar int
  | UpdateCell int int
  | UpdateStatus
  | UpdateTime
  | ClosePopup
  | Info int notice

section \<open>handle\_car\_packet\<close>

text \<open>\<^verbatim>\<open>memset (&state->car_info[i][j], 0, sizeof (CarAtom))\<close> for every \<open>j\<close> of a fresh row.\<close>

definition new_atoms :: "Catalogue \<Rightarrow> CarAtom list" where
  "new_atoms cat = replicate (nat (LAST_CAR_PACKET cat)) \<lparr>atom_data = 0, atom_text = []\<rparr>"

text \<open>
  \<^verbatim>\<open>realloc\<close> keeps the old cells and appends fresh ones; what a fresh cell holds is
  indeterminate in C, here it is the given filler.  Allocation is taken to succeed.
\<close>

definition realloc :: "nat \<Rightarrow> 'a \<Rightarrow> 'a list \<Rightarrow> 'a list" where
  "realloc n d xs = take n xs @ replicate (n - length xs) d"

text \<open>\<^verbatim>\<open>for (i = state->num_cars; i < packet->car; i++)\<close>\<close>

function init_cars ::
  "Catalogue \<Rightarrow> int \<Rightarrow> int \<Rightarrow> int list \<times> CarAtom list list
     \<Rightarrow> fault + (int list \<times> CarAtom list list)" where
  "init_cars cat n i (pos, info) =
     (if i < n then
        (if 0 \<le> i \<and> nat i < length pos \<and> nat i < length info
         then init_cars cat n (i + 1) (pos[nat i := 0], info[nat i := new_atoms cat])
         else Inl WriteOutOfBounds)
      else Inr (pos, info))"
  by pat_completeness auto
termination
  by (relation "measure (\<lambda>(cat, n, i, p). nat (n - i))") auto

declare init_cars.simps [simp del]

definition grow_cars ::
  "Catalogue \<Rightarrow> CurrentState \<Rightarrow> int \<Rightarrow> fault + (event list \<times> CurrentState)" where
  "grow_cars cat state n =
     (case init_cars cat n (num_cars state)
             (realloc (nat n) 0 (car_position state), realloc (nat n) [] (car_info state)) of
        Inl e \<Rightarrow> Inl e
      | Inr (pos, info) \<Rightarrow>
          Inr ([ClearBoard], state\<lparr>car_position := pos, car_info := info, num_cars := n\<rparr>))"

text \<open>
  \<^verbatim>\<open>for (i = 0; i < state->num_cars; i++) if (state->car_position[i] == packet->data)
  state->car_position[i] = 0;\<close>
\<close>

function clear_position :: "int \<Rightarrow> nat \<Rightarrow> nat \<Rightarrow> int list \<Rightarrow> fault + int list" where
  "clear_position d n i pos =
     (if i < n then
        (if i < length pos
         then clear_position d n (Suc i) (if pos ! i = d then pos[i := 0] else pos)
         else Inl ReadOutOfBounds)
      else Inr pos)"
  by pat_completeness auto
termination
  by (relation "measure (\<lambda>(d, n, i, pos). n - i)") auto

declare clear_position.simps [simp del]

text \<open>
  \<^verbatim>\<open>strcpy (atom->text, (const char *) packet->payload)\<close> copies up to and including the
  first NUL of the payload, whatever \<^verbatim>\<open>packet->len\<close> says, and checks no size.
\<close>

definition c_string :: "byte list \<Rightarrow> fault + byte list" where
  "c_string bs = (if 0 \<in> set bs then Inr (takeWhile (\<lambda>b. b \<noteq> 0) bs) else Inl ReadOutOfBounds)"

definition strcpy :: "nat \<Rightarrow> byte list \<Rightarrow> fault + byte list" where
  "strcpy cap src =
     (case c_string src of
        Inl e \<Rightarrow> Inl e
      | Inr s \<Rightarrow> if length s < cap then Inr s else Inl WriteOutOfBounds)"

text \<open>\<^verbatim>\<open>case CAR_POSITION_UPDATE:\<close>\<close>

definition position_update ::
  "CurrentState \<Rightarrow> Packet \<Rightarrow> fault + (event list \<times> CurrentState)" where
  "position_update state packet =
     (if 1 \<le> car packet \<and> nat (car packet - 1) < length (car_position state) then
        (case clear_position (data packet) (nat (num_cars state)) 0 (car_position state) of
           Inl e \<Rightarrow> Inl e
         | Inr pos \<Rightarrow>
             Inr (ClearCar (car packet) #
                    (if data packet \<noteq> 0 then [UpdateCar (car packet)] else []),
                  state\<lparr>car_position := pos[nat (car packet - 1) := data packet]\<rparr>))
      else Inl ReadOutOfBounds)"

text \<open>\<^verbatim>\<open>default:\<close> the data atom.\<close>

definition data_atom ::
  "Catalogue \<Rightarrow> CurrentState \<Rightarrow> Packet \<Rightarrow> fault + (event list \<times> CurrentState)" where
  "data_atom cat state packet =
     (if 1 \<le> car packet \<and> nat (car packet - 1) < length (car_info state) \<and>
         0 \<le> type packet \<and>
         nat (type packet) < length (car_info state ! nat (car packet - 1)) then
        (let row = car_info state ! nat (car packet - 1);
             atom = (row ! nat (type packet))\<lparr>atom_data := data packet\<rparr>;
             store = (\<lambda>a. state\<lparr>car_info :=
                        (car_info state)[nat (car packet - 1) := row[nat (type packet) := a]]\<rparr>)
         in if len packet \<ge> 0 then
              (case strcpy (TEXT_SIZE cat) (payload packet) of
                 Inl e \<Rightarrow> Inl e
               | Inr s \<Rightarrow> Inr ([UpdateCell (car packet) (type packet)],
                              store (atom\<lparr>atom_text := s\<rparr>)))
            else Inr ([UpdateCell (car packet) (type packet)], store atom))
      else Inl WriteOutOfBounds)"

definition handle_car_packet ::
  "Catalogue \<Rightarrow> CurrentState \<Rightarrow> Packet \<Rightarrow> fault + (event list \<times> CurrentState)" where
  "handle_car_packet cat state packet =
     (case (if car packet > num_cars state then grow_cars cat state (car packet)
            else Inr ([], state)) of
        Inl e \<Rightarrow> Inl e
      | Inr (ev, st) \<Rightarrow>
          (case (if type packet = CAR_POSITION_UPDATE cat then position_update st packet
                 else if type packet = CAR_POSITION_HISTORY cat then Inr ([], st)
                 else data_atom cat st packet) of
             Inl e \<Rightarrow> Inl e
           | Inr (ev', st') \<Rightarrow> Inr (ev @ ev', st')))"

section \<open>handle\_system\_packet\<close>

text \<open>
  The collaborators of \<^verbatim>\<open>http.c\<close> and \<^verbatim>\<open>stream.c\<close> and the clock are outside the sources
  at hand and are parameters: the key server's answer, what replaying a key frame through
  the handlers leaves of the state, the start value of the decryption state, and the value
  of \<^verbatim>\<open>time (NULL)\<close>.
\<close>

record Collab =
  obtain_decryption_key :: "byte list \<Rightarrow> u32 \<Rightarrow> byte list \<Rightarrow> u32"
  obtain_key_frame :: "byte list \<Rightarrow> u32 \<Rightarrow> CurrentState \<Rightarrow> CurrentState"
  decryption_start :: u32
  time_now :: int

text \<open>
  Modelled from the spec: \<^verbatim>\<open>reset_decryption\<close> of \<^verbatim>\<open>stream.c\<close>, which is not part of the
  sources; it resynchronises the keyed transform's internal state and touches nothing else.
\<close>

definition reset_decryption :: "Collab \<Rightarrow> CurrentState \<Rightarrow> CurrentState" where
  "reset_decryption env state = state\<lparr>decryption := decryption_start env\<rparr>"

text \<open>
  \<^verbatim>\<open>for (i = 1; i < packet->len; i++) { number *= 10; number += packet->payload[i] - '0'; }\<close>
  with \<^verbatim>\<open>unsigned int number, i\<close>: the comparison converts \<^verbatim>\<open>packet->len\<close> to unsigned,
  which is the bound \<open>n\<close> here.
\<close>

function event_number :: "byte list \<Rightarrow> nat \<Rightarrow> nat \<Rightarrow> u32 \<Rightarrow> fault + u32" where
  "event_number pl n i number =
     (if i < n then
        (if i < length pl
         then event_number pl n (Suc i) (number * 10 + (ucast (pl ! i) - 48))
         else Inl ReadOutOfBounds)
      else Inr number)"
  by pat_completeness auto
termination
  by (relation "measure (\<lambda>(pl, n, i, number). n - i)") auto

declare event_number.simps [simp del]

text \<open>
  \<^verbatim>\<open>i = packet->len; while (i) { number <<= 8; number |= packet->payload[--i]; }\<close>
\<close>

fun key_frame_number :: "byte list \<Rightarrow> nat \<Rightarrow> u32 \<Rightarrow> fault + u32" where
  "key_frame_number pl 0 number = Inr number"
| "key_frame_number pl (Suc i) number =
     (if i < length pl
      then key_frame_number pl i (push_bit 8 number OR ucast (pl ! i))
      else Inl ReadOutOfBounds)"

text \<open>
  The scan of the session clock; the pair is \<^verbatim>\<open>(total, number)\<close> when the loop ends
  (\<open>tot\<close> stands for the C variable \<^verbatim>\<open>total\<close>).
\<close>

function session_clock ::
  "byte list \<Rightarrow> nat \<Rightarrow> nat \<Rightarrow> u32 \<times> u32 \<Rightarrow> fault + (u32 \<times> u32)" where
  "session_clock pl n i (tot, number) =
     (if i < n then
        (if i < length pl then
           (if pl ! i = 58
            then session_clock pl n (Suc i) (tot * 60 + number, 0)
            else session_clock pl n (Suc i) (tot, number * 10 + (ucast (pl ! i) - 48)))
         else Inl ReadOutOfBounds)
      else Inr (tot, number))"
  by pat_completeness auto
termination
  by (relation "measure (\<lambda>(pl, n, i, acc). n - i)") auto

declare session_clock.simps [simp del]

text \<open>The value of an \<^verbatim>\<open>int\<close> converted to \<^verbatim>\<open>unsigned int\<close>.\<close>

definition to_unsigned :: "int \<Rightarrow> nat" where
  "to_unsigned x = unat (word_of_int x :: u32)"

definition handle_system_packet ::
  "Catalogue \<Rightarrow> Collab \<Rightarrow> CurrentState \<Rightarrow> Packet \<Rightarrow> fault + (event list \<times> CurrentState)" where
  "handle_system_packet cat env state packet =
     (if type packet = SYS_EVENT_ID cat then
        (case event_number (payload packet) (to_unsigned (len packet)) 1 0 of
           Inl e \<Rightarrow> Inl e
         | Inr number \<Rightarrow>
             Inr ([ObtainDecryptionKey (host state) number (cookie state),
                   ResetDecryption, ClearBoard, Info 3 (BeginEvent number (data packet))],
                  reset_decryption env
                    (state\<lparr>key := obtain_decryption_key env (host state) number (cookie state),
                           event_no := number,
                           event_type := data packet,
                           epoch_time := 0,
                           remaining_time := 0,
                           lap := 0,
                           num_cars := 0,
                           car_position := [],
                           car_info := []\<rparr>)))
      else if type packet = SYS_KEY_FRAME cat then
        (case key_frame_number (payload packet) (to_unsigned (len packet)) 0 of
           Inl e \<Rightarrow> Inl e
         | Inr number \<Rightarrow>
             (let st = reset_decryption env state
              in if frame st = 0 then
                   Inr ([ResetDecryption, ObtainKeyFrame (host st) number, ResetDecryption],
                        reset_decryption env
                          (obtain_key_frame env (host st) number (st\<lparr>frame := number\<rparr>)))
                 else Inr ([ResetDecryption], st\<lparr>frame := number\<rparr>)))
      else if type packet = SYS_WEATHER cat then
        (if data packet = 0 then
           (if len packet > 0 then
              (case session_clock (payload packet) (to_unsigned (len packet)) 0 (0, 0) of
                 Inl e \<Rightarrow> Inl e
               | Inr (tot, number) \<Rightarrow>
                   Inr ([ClosePopup, UpdateTime],
                        state\<lparr>epoch_time :=
                                 (if epoch_time state \<noteq> 0 then time_now env
                                  else epoch_time state),
                               remaining_time := tot * 60 + number\<rparr>))
            else Inr ([ClosePopup, UpdateTime], state\<lparr>epoch_time := time_now env\<rparr>))
         else Inr ([], state))
      else if type packet = SYS_TRACK_STATUS cat then
        (if data packet = 1 then
           (case payload packet of
              [] \<Rightarrow> Inl ReadOutOfBounds
            | b # bs \<Rightarrow> Inr ([UpdateStatus], state\<lparr>flag := uint b - 48\<rparr>))
         else Inr ([], state))
      else if type packet = SYS_COPYRIGHT cat then
        (case c_string (payload packet) of
           Inl e \<Rightarrow> Inl e
         | Inr s \<Rightarrow> Inr ([Info 2 (Message s)], state))
      else if type packet = SYS_NOTICE cat then
        (case c_string (payload packet) of
           Inl e \<Rightarrow> Inl e
         | Inr s \<Rightarrow> Inr ([Info 0 (Message s)], state))
      else Inr ([], state))"

section \<open>Packet streams\<close>

text \<open>
  A feed of system packets is reduced packet by packet, each on the state the one before
  left; the result keeps the collaborator calls of each packet apart.  A fault ends the run.
\<close>

fun system_feed ::
  "Catalogue \<Rightarrow> Collab \<Rightarrow> CurrentState \<Rightarrow> Packet list
     \<Rightarrow> fault + (event list list \<times> CurrentState)" where
  "system_feed cat env state [] = Inr ([], state)"
| "system_feed cat env state (packet # packets) =
     (case handle_system_packet cat env state packet of
        Inl e \<Rightarrow> Inl e
      | Inr (ev, state') \<Rightarrow>
          (case system_feed cat env state' packets of
             Inl e \<Rightarrow> Inl e
           | Inr (evs, state'') \<Rightarrow> Inr (ev # evs, state'')))"

fun is_snapshot_request :: "event \<Rightarrow> bool" where
  "is_snapshot_request (ObtainKeyFrame h n) = True"
| "is_snapshot_request e = False"

definition snapshot_requests :: "event list \<Rightarrow> nat" where
  "snapshot_requests ev = length (filter is_snapshot_request ev)"

definition decryption_resets :: "event list \<Rightarrow> nat" where
  "decryption_resets ev = length (filter (\<lambda>e. e = ResetDecryption) ev)"

text \<open>The snapshot requests of each packet of a feed, in order.\<close>

definition requests_per_packet ::
  "Catalogue \<Rightarrow> Collab \<Rightarrow> CurrentState \<Rightarrow> Packet list \<Rightarrow> fault + nat list" where
  "requests_per_packet cat env state packets =
     (case system_feed cat env state packets of
        Inl e \<Rightarrow> Inl e
      | Inr (evs, state') \<Rightarrow> Inr (map snapshot_requests evs))"

text \<open>
  Modelled from the spec: the state at program start (\<^verbatim>\<open>main.c\<close> is not part of the
  sources), created empty.  The states a feed can lead to are those the two handlers build
  from an empty entity table.
\<close>

inductive reachable :: "Catalogue \<Rightarrow> Collab \<Rightarrow> CurrentState \<Rightarrow> bool"
  for cat :: Catalogue and env :: Collab where
  start:
    "num_cars state = 0 \<Longrightarrow> car_position state = [] \<Longrightarrow> car_info state = []
       \<Longrightarrow> reachable cat env state"
| car_packet:
    "reachable cat env state \<Longrightarrow> handle_car_packet cat state packet = Inr (ev, state')
       \<Longrightarrow> reachable cat env state'"
| system_packet:
    "reachable cat env state \<Longrightarrow> handle_system_packet cat env state packet = Inr (ev, state')
       \<Longrightarrow> reachable cat env state'"

section \<open>Reading the state\<close>

text \<open>
  \<^verbatim>\<open>state->car_position[car - 1]\<close> and \<^verbatim>\<open>state->car_info[car - 1][type]\<close>, as
  \<^verbatim>\<open>display.c\<close> reads them for the 1-based car number.
\<close>

definition position_of :: "CurrentState \<Rightarrow> int \<Rightarrow> int" where
  "position_of state c = car_position state ! nat (c - 1)"

definition atom_of :: "CurrentState \<Rightarrow> int \<Rightarrow> int \<Rightarrow> CarAtom" where
  "atom_of state c t = car_info state ! nat (c - 1) ! nat t"

definition empty_atom :: CarAtom where
  "empty_atom = \<lparr>atom_data = 0, atom_text = []\<rparr>"

text \<open>The cars of the table that stand on board row \<open>p\<close>.\<close>

definition holders :: "CurrentState \<Rightarrow> int \<Rightarrow> int list" where
  "holders state p = filter (\<lambda>c. position_of state c = p) [1..num_cars state]"

text \<open>
  The representation invariant of the entity table: both arrays have \<^verbatim>\<open>num_cars\<close> cells
  and every row of atoms has \<^verbatim>\<open>LAST_CAR_PACKET\<close> of them.
\<close>

definition state_ok :: "Catalogue \<Rightarrow> CurrentState \<Rightarrow> bool" where
  "state_ok cat state \<longleftrightarrow>
     0 \<le> num_cars state \<and>
     length (car_position state) = nat (num_cars state) \<and>
     length (car_info state) = nat (num_cars state) \<and>
     (\<forall>row \<in> set (car_info state). length row = nat (LAST_CAR_PACKET cat))"

text \<open>No board row but 0 is held twice.\<close>

definition rows_distinct :: "CurrentState \<Rightarrow> bool" where
  "rows_distinct state \<longleftrightarrow>
     (\<forall>i < length (car_position state). \<forall>j < length (car_position state).
        i \<noteq> j \<and> car_position state ! i \<noteq> 0
          \<longrightarrow> car_position state ! i \<noteq> car_position state ! j)"

definition board_ok :: "Catalogue \<Rightarrow> CurrentState \<Rightarrow> bool" where
  "board_ok cat state \<longleftrightarrow> state_ok cat state \<and> rows_distinct state"

text \<open>
  What is asked of the key-frame collaborator: replaying a snapshot keeps the entity table
  well formed and its rows distinct (it feeds packets to the two handlers above).
\<close>

definition key_frame_keeps_board :: "Catalogue \<Rightarrow> Collab \<Rightarrow> bool" where
  "key_frame_keeps_board cat env \<longleftrightarrow>
     (\<forall>h n state. board_ok cat state \<longrightarrow> board_ok cat (obtain_key_frame env h n state))"

text \<open>
  The state when the \<^verbatim>\<open>switch\<close> of \<^verbatim>\<open>handle_car_packet\<close> is entered: the table grown
  to the packet's car where that car was not known.
\<close>

definition grown :: "Catalogue \<Rightarrow> CurrentState \<Rightarrow> int \<Rightarrow> CurrentState" where
  "grown cat state n =
     state\<lparr>car_position := car_position state @ replicate (nat (n - num_cars state)) 0,
           car_info := car_info state @ replicate (nat (n - num_cars state)) (new_atoms cat),
           num_cars := n\<rparr>"

definition entered :: "Catalogue \<Rightarrow> CurrentState \<Rightarrow> Packet \<Rightarrow> CurrentState" where
  "entered cat state packet =
     (if car packet > num_cars state then grown cat state (car packet) else state)"

text \<open>The table with one atom replaced: \<^verbatim>\<open>state->car_info[c - 1][t] = a\<close>.\<close>

definition with_atom :: "CurrentState \<Rightarrow> int \<Rightarrow> int \<Rightarrow> CarAtom \<Rightarrow> CurrentState" where
  "with_atom state c t a =
     state\<lparr>car_info :=
       (car_info state)[nat (c - 1) := (car_info state ! nat (c - 1))[nat t := a]]\<rparr>"

text \<open>
  A payload is well formed when the array holds the \<^verbatim>\<open>len\<close> bytes the packet announces
  (\<^verbatim>\<open>len\<close> is a C \<^verbatim>\<open>int\<close>; a negative one announces no payload).
\<close>

definition payload_ok :: "Packet \<Rightarrow> bool" where
  "payload_ok packet \<longleftrightarrow>
     len packet \<le> int (length (payload packet)) \<and> len packet < 2 ^ 31"

definition announced :: "Packet \<Rightarrow> byte list" where
  "announced packet = take (nat (len packet)) (payload packet)"

section \<open>The numerals of the spec\<close>

text \<open>
  The spec's ASCII decimal numeral: \<open>number = number * 10 + (digit - '0')\<close> over the bytes,
  in \<^verbatim>\<open>unsigned int\<close> arithmetic.
\<close>

definition decimal_value :: "byte list \<Rightarrow> u32" where
  "decimal_value bs = foldl (\<lambda>number b. number * 10 + (ucast b - 48)) 0 bs"

text \<open>The spec's little-endian unsigned integer of a byte sequence.\<close>

definition little_endian :: "byte list \<Rightarrow> u32" where
  "little_endian bs = foldr (\<lambda>b number. push_bit 8 number OR ucast b) bs 0"

text \<open>
  The spec's fold rule for a duration: on \<open>:\<close> fold the digits into
  \<open>total = total * 60 + number\<close> and reset \<open>number\<close>, on any other byte
  \<open>number = number * 10 + digit\<close>; after the scan fold once more.
\<close>

definition clock_step :: "u32 \<times> u32 \<Rightarrow> byte \<Rightarrow> u32 \<times> u32" where
  "clock_step acc b =
     (if b = 58 then (fst acc * 60 + snd acc, 0)
      else (fst acc, snd acc * 10 + (ucast b - 48)))"

definition duration :: "byte list \<Rightarrow> u32" where
  "duration bs = (let acc = foldl clock_step (0, 0) bs in fst acc * 60 + snd acc)"

section \<open>Sample values\<close>

definition ascii :: "string \<Rightarrow> byte list" where
  "ascii cs = map of_char cs"

definition sample_catalogue :: Catalogue where
  "sample_catalogue =
     \<lparr>CAR_POSITION_UPDATE = 0, CAR_POSITION_HISTORY = 15, LAST_CAR_PACKET = 16,
      SYS_EVENT_ID = 1, SYS_KEY_FRAME = 2, SYS_WEATHER = 9, SYS_TRACK_STATUS = 11,
      SYS_COPYRIGHT = 12, SYS_NOTICE = 6, TEXT_SIZE = 16\<rparr>"

text \<open>A key-frame collaborator whose snapshot holds no packet, and a clock at 1000.\<close>

definition sample_collab :: Collab where
  "sample_collab =
     \<lparr>obtain_decryption_key = (\<lambda>h n c. 0), obtain_key_frame = (\<lambda>h n state. state),
      decryption_start = 0, time_now = 1000\<rparr>"

definition start_state :: CurrentState where
  "start_state =
     \<lparr>host = [], cookie = [], key = 0, decryption = 0, frame = 0, event_no = 0,
      event_type = 0, epoch_time = 0, remaining_time = 0, lap = 0, flag = 0,
      num_cars = 0, car_position = [], car_info = []\<rparr>"

text \<open>Two cars on the table, car 1 on row 3, car 2 off the board.\<close>

definition two_cars :: CurrentState where
  "two_cars =
     start_state\<lparr>num_cars := 2, car_position := [3, 0],
       car_info := [new_atoms sample_catalogue, new_atoms sample_catalogue]\<rparr>"

text \<open>A position update that puts car 2 on row 3.\<close>

definition assign_car2_row3 :: Packet where
  "assign_car2_row3 = \<lparr>car = 2, type = 0, data = 3, len = - 1, payload = []\<rparr>"

text \<open>The same table with a driver name in field 3 of car 1.\<close>

definition named_car :: CurrentState where
  "named_car = with_atom two_cars 1 3 \<lparr>atom_data = 1, atom_text = ascii ''ALO''\<rparr>"

text \<open>A field atom without payload: only the colour of field 3 of car 1.\<close>

definition recolour_name :: Packet where
  "recolour_name = \<lparr>car = 1, type = 3, data = 5, len = - 1, payload = []\<rparr>"

text \<open>The first packet of a feed: car 1, unknown so far, goes to row 5.\<close>

definition first_car_row5 :: Packet where
  "first_car_row5 = \<lparr>car = 1, type = 0, data = 5, len = - 1, payload = []\<rparr>"

text \<open>A field atom whose text fills the 16 bytes of the sample buffer and leaves no room
  for the NUL.\<close>

definition long_name :: Packet where
  "long_name =
     \<lparr>car = 1, type = 3, data = 1, len = 16, payload = ascii ''ABCDEFGHIJKLMNOP'' @ [0]\<rparr>"

text \<open>A car packet whose type lies beyond the sample enumeration.\<close>

definition unknown_car_type :: Packet where
  "unknown_car_type = \<lparr>car = 1, type = 16, data = 1, len = - 1, payload = []\<rparr>"

text \<open>System packets: the start of event 6245 and of event 6246, the session clock at
  1:02:03, a clock packet with an empty payload, and the key frame markers 5 and 6.\<close>

definition session_start_6245 :: Packet where
  "session_start_6245 =
     \<lparr>car = 0, type = 1, data = 1, len = 5, payload = ascii ''_6245'' @ [0]\<rparr>"

definition session_start_6246 :: Packet where
  "session_start_6246 =
     \<lparr>car = 0, type = 1, data = 1, len = 5, payload = ascii ''_6246'' @ [0]\<rparr>"

definition clock_1_02_03 :: Packet where
  "clock_1_02_03 =
     \<lparr>car = 0, type = 9, data = 0, len = 7, payload = ascii ''1:02:03'' @ [0]\<rparr>"

definition clock_empty :: Packet where
  "clock_empty = \<lparr>car = 0, type = 9, data = 0, len = 0, payload = [0]\<rparr>"

definition key_frame_5 :: Packet where
  "key_frame_5 = \<lparr>car = 0, type = 2, data = 0, len = 2, payload = [5, 0, 0]\<rparr>"

definition key_frame_6 :: Packet where
  "key_frame_6 = \<lparr>car = 0, type = 2, data = 0, len = 2, payload = [6, 0, 0]\<rparr>"

text \<open>A session whose clock is running: \<^verbatim>\<open>epoch_time\<close> is set.\<close>

definition running_state :: CurrentState where
  "running_state = two_cars\<lparr>epoch_time := 900, remaining_time := 10\<rparr>"

text \<open>A system packet of a type that is no case label of the sample enumeration, and a
  weather packet for a sub-field other than the session clock.\<close>

definition unknown_system_type :: Packet where
  "unknown_system_type = \<lparr>car = 0, type = 7, data = 0, len = 2, payload = [1, 2, 0]\<rparr>"

definition weather_other_field :: Packet where
  "weather_other_field = \<lparr>car = 0, type = 9, data = 3, len = 2, payload = ascii ''21'' @ [0]\<rparr>"

text \<open>A session start whose length field is the \<open>-1\<close> of a packet without payload.\<close>

definition session_start_no_payload :: Packet where
  "session_start_no_payload =
     \<lparr>car = 0, type = 1, data = 1, len = - 1, payload = ascii ''_6245'' @ [0]\<rparr>"

text \<open>A feed with two sessions, each with one key frame marker, closed by the start of a
  third.\<close>

definition two_sessions :: "Packet list" where
  "two_sessions =
     [session_start_6245, key_frame_5, session_start_6246, key_frame_6, session_start_6245]"

text \<open>The table after the feed's first packet has put the unknown car 2 on row 3.\<close>

definition car2_on_row3 :: CurrentState where
  "car2_on_row3 =
     start_state\<lparr>car_position := [0, 3],
       car_info := [new_atoms sample_catalogue, new_atoms sample_catalogue],
       num_cars := 2\<rparr>"

text \<open>A field atom of a type inside the atom rows that \<^verbatim>\<open>display.c\<close> has no column for.\<close>

definition unnamed_car_type :: Packet where
  "unnamed_car_type = \<lparr>car = 1, type = 14, data = 7, len = - 1, payload = []\<rparr>"

section \<open>The loops of handle\_car\_packet\<close>

lemma init_cars_run:
  "0 \<le> i \<Longrightarrow> i \<le> n \<Longrightarrow> length pos = nat n \<Longrightarrow> length info = nat n \<Longrightarrow>
   init_cars cat n i (pos, info) =
     Inr (take (nat i) pos @ replicate (nat (n - i)) 0,
          take (nat i) info @ replicate (nat (n - i)) (new_atoms cat))"
proof (induction cat n i "(pos, info)" arbitrary: pos info rule: init_cars.induct)
  case (1 cat n i pos info)
  show ?case
  proof (cases "i < n")
    case False
    with "1.prems" show ?thesis by (simp add: init_cars.simps)
  next
    case True
    with "1.prems" have inb: "nat i < length pos" "nat i < length info" by auto
    have step: "init_cars cat n i (pos, info) =
        init_cars cat n (i + 1) (pos[nat i := 0], info[nat i := new_atoms cat])"
      using True inb "1.prems" by (subst init_cars.simps) simp
    have ih: "init_cars cat n (i + 1) (pos[nat i := 0], info[nat i := new_atoms cat]) =
        Inr (take (nat (i + 1)) (pos[nat i := 0]) @ replicate (nat (n - (i + 1))) 0,
             take (nat (i + 1)) (info[nat i := new_atoms cat]) @
               replicate (nat (n - (i + 1))) (new_atoms cat))"
      using "1.hyps" True inb "1.prems" by simp
    have n1: "nat (i + 1) = Suc (nat i)" using "1.prems" by simp
    have n2: "nat (n - i) = Suc (nat (n - (i + 1)))" using True by simp
    have a: "take (Suc (nat i)) (pos[nat i := 0]) = take (nat i) pos @ [0]"
      using inb by (simp add: take_Suc_conv_app_nth)
    have b: "take (Suc (nat i)) (info[nat i := new_atoms cat]) =
        take (nat i) info @ [new_atoms cat]"
      using inb by (simp add: take_Suc_conv_app_nth)
    show ?thesis
      unfolding step ih n1 n2 a b by (simp add: replicate_app_Cons_same)
  qed
qed

lemma clear_position_run:
  "i \<le> n \<Longrightarrow> length pos = n \<Longrightarrow>
   clear_position d n i pos =
     Inr (take i pos @ map (\<lambda>q. if q = d then 0 else q) (drop i pos))"
proof (induction d n i pos rule: clear_position.induct)
  case (1 d n i pos)
  show ?case
  proof (cases "i < n")
    case False
    with "1.prems" show ?thesis by (simp add: clear_position.simps)
  next
    case True
    let ?pos' = "if pos ! i = d then pos[i := 0] else pos"
    have step: "clear_position d n i pos = clear_position d n (Suc i) ?pos'"
      using True "1.prems" by (subst clear_position.simps) simp
    have ih: "clear_position d n (Suc i) ?pos' =
        Inr (take (Suc i) ?pos' @ map (\<lambda>q. if q = d then 0 else q) (drop (Suc i) ?pos'))"
      using "1.IH"[OF True] True "1.prems" by simp
    have "take (Suc i) ?pos' = take i pos @ [if pos ! i = d then 0 else pos ! i]"
      using True "1.prems" by (simp add: take_Suc_conv_app_nth)
    moreover have "drop (Suc i) ?pos' = drop (Suc i) pos" by simp
    moreover have "drop i pos = pos ! i # drop (Suc i) pos"
      using True "1.prems" by (simp add: Cons_nth_drop_Suc)
    ultimately show ?thesis unfolding step ih by simp
  qed
qed

section \<open>Growth of the entity table\<close>

lemma grow_cars_run:
  assumes "state_ok cat state" "num_cars state < n"
  shows "grow_cars cat state n = Inr ([ClearBoard], grown cat state n)"
proof -
  let ?k = "nat (num_cars state)"
  from assms have k: "0 \<le> num_cars state" "length (car_position state) = ?k"
    "length (car_info state) = ?k" "?k \<le> nat n"
    by (auto simp: state_ok_def)
  have r1: "realloc (nat n) 0 (car_position state) =
      car_position state @ replicate (nat n - ?k) 0"
    using k by (simp add: realloc_def)
  have r2: "realloc (nat n) [] (car_info state) = car_info state @ replicate (nat n - ?k) []"
    using k by (simp add: realloc_def)
  have "init_cars cat n (num_cars state)
          (realloc (nat n) 0 (car_position state), realloc (nat n) [] (car_info state)) =
        Inr (car_position state @ replicate (nat (n - num_cars state)) 0,
             car_info state @ replicate (nat (n - num_cars state)) (new_atoms cat))"
    using k assms(2) by (subst init_cars_run) (auto simp: r1 r2)
  then show ?thesis by (simp add: grow_cars_def grown_def)
qed

lemma state_ok_grown:
  "state_ok cat state \<Longrightarrow> num_cars state < n \<Longrightarrow> state_ok cat (grown cat state n)"
  by (auto simp: state_ok_def grown_def new_atoms_def)

lemma state_ok_entered: "state_ok cat state \<Longrightarrow> state_ok cat (entered cat state packet)"
  by (simp add: entered_def state_ok_grown)

lemma num_cars_entered:
  "num_cars (entered cat state packet) = max (num_cars state) (car packet)"
  by (simp add: entered_def grown_def)

lemma car_position_entered:
  "car_position (entered cat state packet) =
     car_position state @ replicate (nat (car packet - num_cars state)) 0"
  by (simp add: entered_def grown_def)

lemma car_info_entered:
  "car_info (entered cat state packet) =
     car_info state @ replicate (nat (car packet - num_cars state)) (new_atoms cat)"
  by (simp add: entered_def grown_def)

lemma position_update_run:
  assumes "state_ok cat state" "1 \<le> car packet" "car packet \<le> num_cars state"
  shows "position_update state packet =
     Inr (ClearCar (car packet) # (if data packet \<noteq> 0 then [UpdateCar (car packet)] else []),
          state\<lparr>car_position :=
            (map (\<lambda>q. if q = data packet then 0 else q) (car_position state))
              [nat (car packet - 1) := data packet]\<rparr>)"
proof -
  from assms have "nat (car packet - 1) < length (car_position state)"
    by (auto simp: state_ok_def)
  moreover have "clear_position (data packet) (nat (num_cars state)) 0 (car_position state) =
      Inr (map (\<lambda>q. if q = data packet then 0 else q) (car_position state))"
    using assms(1) by (subst clear_position_run) (auto simp: state_ok_def)
  ultimately show ?thesis using assms(2) by (simp add: position_update_def)
qed

lemma handle_car_packet_entered:
  assumes "state_ok cat state"
  shows "handle_car_packet cat state packet =
     (case (if type packet = CAR_POSITION_UPDATE cat
              then position_update (entered cat state packet) packet
            else if type packet = CAR_POSITION_HISTORY cat
              then Inr ([], entered cat state packet)
            else data_atom cat (entered cat state packet) packet) of
        Inl e \<Rightarrow> Inl e
      | Inr (ev, st) \<Rightarrow>
          Inr ((if car packet > num_cars state then [ClearBoard] else []) @ ev, st))"
  using assms by (simp add: handle_car_packet_def entered_def grow_cars_run)

lemma handle_position_update:
  assumes "state_ok cat state" "type packet = CAR_POSITION_UPDATE cat" "1 \<le> car packet"
  shows "handle_car_packet cat state packet =
     Inr ((if car packet > num_cars state then [ClearBoard] else []) @
            ClearCar (car packet) # (if data packet \<noteq> 0 then [UpdateCar (car packet)] else []),
          (entered cat state packet)\<lparr>car_position :=
            (map (\<lambda>q. if q = data packet then 0 else q)
               (car_position (entered cat state packet)))
              [nat (car packet - 1) := data packet]\<rparr>)"
proof -
  have "car packet \<le> num_cars (entered cat state packet)"
    by (simp add: num_cars_entered)
  from position_update_run [OF state_ok_entered [OF assms(1)] assms(3) this] assms
  show ?thesis by (simp add: handle_car_packet_entered)
qed

section \<open>Sample values are well formed\<close>

lemma catalogue_ok_sample: "catalogue_ok sample_catalogue"
  by (simp add: catalogue_ok_def sample_catalogue_def)

lemma state_ok_start: "state_ok cat start_state"
  by (simp add: state_ok_def start_state_def)

lemma state_ok_two_cars: "state_ok sample_catalogue two_cars"
  by (simp add: state_ok_def two_cars_def start_state_def new_atoms_def sample_catalogue_def)

section \<open>Position updates\<close>

text \<open>
  Claim C2.  In a well-formed state a \<^verbatim>\<open>CAR_POSITION_UPDATE\<close> packet for car \<open>B\<close> returns;
  the reducer first clears every car whose position equals \<open>packet.data\<close> to 0 (over the
  table grown to \<open>B\<close> where needed) and then sets the position of \<open>B\<close> to \<open>packet.data\<close>.
  So \<open>B\<close> holds the new position afterwards, and a known car \<open>A\<close> other than \<open>B\<close> that
  held it before is at 0.
\<close>

theorem position_update_resolves_duplicates:
  assumes "state_ok cat state" and "type packet = CAR_POSITION_UPDATE cat"
    and "1 \<le> car packet"
  shows "\<exists>ev state'. handle_car_packet cat state packet = Inr (ev, state') \<and>
     car_position state' =
       (map (\<lambda>q. if q = data packet then 0 else q)
          (car_position state @ replicate (nat (car packet - num_cars state)) 0))
       [nat (car packet - 1) := data packet] \<and>
     position_of state' (car packet) = data packet \<and>
     (\<forall>a. 1 \<le> a \<and> a \<le> num_cars state \<and> a \<noteq> car packet \<and>
          position_of state a = data packet \<longrightarrow> position_of state' a = 0)"
proof -
  let ?g = "entered cat state packet"
  let ?pos = "(map (\<lambda>q. if q = data packet then 0 else q) (car_position ?g))
                [nat (car packet - 1) := data packet]"
  have ok: "state_ok cat ?g" using assms(1) by (rule state_ok_entered)
  have le: "car packet \<le> num_cars ?g" by (simp add: num_cars_entered)
  note g = car_position_entered [of cat state packet]
  have len: "length (car_position ?g) = nat (num_cars ?g)"
    using ok by (simp add: state_ok_def)
  note run = handle_position_update [OF assms]
  have own: "?pos ! nat (car packet - 1) = data packet"
    using assms(3) le len by simp
  have others: "?pos ! nat (a - 1) = 0"
    if "1 \<le> a" "a \<le> num_cars state" "a \<noteq> car packet" "position_of state a = data packet"
    for a
  proof -
    have lt: "nat (a - 1) < length (car_position state)"
      using that assms(1) by (auto simp: state_ok_def)
    have ne: "nat (a - 1) \<noteq> nat (car packet - 1)" using that assms(3) by auto
    have "car_position ?g ! nat (a - 1) = data packet"
      using that lt by (simp add: g nth_append position_of_def)
    moreover have "nat (a - 1) < length (car_position ?g)" using lt by (simp add: g)
    ultimately show ?thesis using ne by simp
  qed
  show ?thesis
    unfolding run using own others by (simp add: position_of_def g)
qed

theorem position_update_resolves_duplicates_witness:
  "state_ok sample_catalogue two_cars \<and>
   type assign_car2_row3 = CAR_POSITION_UPDATE sample_catalogue \<and>
   1 \<le> car assign_car2_row3 \<and> position_of two_cars 1 = data assign_car2_row3 \<and>
   (\<exists>ev state'.
      handle_car_packet sample_catalogue two_cars assign_car2_row3 = Inr (ev, state') \<and>
      car_position state' = [0, 3])"
proof -
  have h: "type assign_car2_row3 = CAR_POSITION_UPDATE sample_catalogue"
    "1 \<le> car assign_car2_row3"
    by (simp_all add: assign_car2_row3_def sample_catalogue_def)
  from position_update_resolves_duplicates [OF state_ok_two_cars h]
  obtain ev state' where
    run: "handle_car_packet sample_catalogue two_cars assign_car2_row3 = Inr (ev, state')" and
    pos: "car_position state' =
       (map (\<lambda>q. if q = data assign_car2_row3 then 0 else q)
          (car_position two_cars @
             replicate (nat (car assign_car2_row3 - num_cars two_cars)) 0))
       [nat (car assign_car2_row3 - 1) := data assign_car2_row3]"
    by blast
  from pos have "car_position state' = [0, 3]"
    by (simp add: assign_car2_row3_def two_cars_def start_state_def)
  with run h state_ok_two_cars show ?thesis
    by (auto simp: position_of_def two_cars_def start_state_def assign_car2_row3_def)
qed


section \<open>Field atoms\<close>

lemma data_atom_in_table:
  assumes "state_ok cat state" "1 \<le> car packet" "car packet \<le> num_cars state"
    "0 \<le> type packet" "type packet < LAST_CAR_PACKET cat"
  shows "nat (car packet - 1) < length (car_info state)"
    and "nat (type packet) < length (car_info state ! nat (car packet - 1))"
proof -
  show a: "nat (car packet - 1) < length (car_info state)"
    using assms by (auto simp: state_ok_def)
  then have "car_info state ! nat (car packet - 1) \<in> set (car_info state)" by simp
  then have "length (car_info state ! nat (car packet - 1)) = nat (LAST_CAR_PACKET cat)"
    using assms(1) by (simp add: state_ok_def)
  then show "nat (type packet) < length (car_info state ! nat (car packet - 1))"
    using assms by simp
qed

lemma data_atom_colour_only:
  assumes "state_ok cat state" "1 \<le> car packet" "car packet \<le> num_cars state"
    "0 \<le> type packet" "type packet < LAST_CAR_PACKET cat" "len packet < 0"
  shows "data_atom cat state packet =
     Inr ([UpdateCell (car packet) (type packet)],
          with_atom state (car packet) (type packet)
            ((atom_of state (car packet) (type packet))\<lparr>atom_data := data packet\<rparr>))"
  using data_atom_in_table [OF assms(1-5)] assms
  by (simp add: data_atom_def with_atom_def atom_of_def Let_def)

lemma data_atom_text:
  assumes "state_ok cat state" "1 \<le> car packet" "car packet \<le> num_cars state"
    "0 \<le> type packet" "type packet < LAST_CAR_PACKET cat" "0 \<le> len packet"
  shows "data_atom cat state packet =
     (case strcpy (TEXT_SIZE cat) (payload packet) of
        Inl e \<Rightarrow> Inl e
      | Inr s \<Rightarrow>
          Inr ([UpdateCell (car packet) (type packet)],
               with_atom state (car packet) (type packet)
                 ((atom_of state (car packet) (type packet))
                    \<lparr>atom_data := data packet, atom_text := s\<rparr>)))"
  using data_atom_in_table [OF assms(1-5)] assms
  by (simp add: data_atom_def with_atom_def atom_of_def Let_def split: sum.splits)

text \<open>Whatever the data atom arm returns, it has replaced the addressed atom and nothing
  else, and the colour of that atom is the packet's.\<close>

lemma data_atom_result:
  assumes "data_atom cat state packet = Inr (ev, state')"
  shows "\<exists>a. state' = with_atom state (car packet) (type packet) a \<and>
           atom_data a = data packet \<and>
           ev = [UpdateCell (car packet) (type packet)] \<and>
           1 \<le> car packet \<and> 0 \<le> type packet \<and>
           nat (car packet - 1) < length (car_info state) \<and>
           nat (type packet) < length (car_info state ! nat (car packet - 1))"
  using assms
  by (auto simp: data_atom_def with_atom_def Let_def split: if_splits sum.splits)

lemma atom_of_with_atom:
  assumes "nat (c - 1) < length (car_info state)"
    "nat t < length (car_info state ! nat (c - 1))"
  shows "atom_of (with_atom state c t a) c t = a"
  using assms by (simp add: atom_of_def with_atom_def)

lemma atom_of_with_atom_other:
  assumes "1 \<le> c" "1 \<le> c'" "0 \<le> t" "0 \<le> t'" "c' \<noteq> c \<or> t' \<noteq> t"
  shows "atom_of (with_atom state c t a) c' t' = atom_of state c' t'"
proof (cases "c' = c")
  case False
  with assms have "nat (c' - 1) \<noteq> nat (c - 1)" by auto
  then show ?thesis by (simp add: atom_of_def with_atom_def)
next
  case True
  with assms have ne: "nat t' \<noteq> nat t" by auto
  show ?thesis
  proof (cases "nat (c - 1) < length (car_info state)")
    case True
    with ne \<open>c' = c\<close> show ?thesis by (simp add: atom_of_def with_atom_def)
  next
    case False
    with \<open>c' = c\<close> show ?thesis
      by (simp add: atom_of_def with_atom_def list_update_beyond)
  qed
qed

lemma state_ok_with_atom:
  assumes "state_ok cat state"
  shows "state_ok cat (with_atom state c t a)"
proof -
  have "length row = nat (LAST_CAR_PACKET cat)"
    if "row \<in> set ((car_info state)[nat (c - 1) := (car_info state ! nat (c - 1))[nat t := a]])"
    for row
  proof (cases "nat (c - 1) < length (car_info state)")
    case True
    from that set_update_subset_insert
    have "row = (car_info state ! nat (c - 1))[nat t := a] \<or> row \<in> set (car_info state)"
      by fastforce
    moreover have "car_info state ! nat (c - 1) \<in> set (car_info state)" using True by simp
    ultimately show ?thesis using assms by (auto simp: state_ok_def)
  next
    case False
    with that assms show ?thesis by (simp add: state_ok_def list_update_beyond)
  qed
  with assms show ?thesis by (simp add: state_ok_def with_atom_def)
qed

lemma atom_of_entered:
  assumes "state_ok cat state" "1 \<le> c" "c \<le> num_cars state"
  shows "atom_of (entered cat state packet) c t = atom_of state c t"
  using assms by (auto simp: atom_of_def car_info_entered nth_append state_ok_def)

lemma atom_of_entered_new:
  assumes "state_ok cat state" "num_cars state < c" "c \<le> car packet"
    "0 \<le> t" "t < LAST_CAR_PACKET cat"
  shows "atom_of (entered cat state packet) c t = empty_atom"
  using assms
  by (auto simp: atom_of_def car_info_entered nth_append state_ok_def new_atoms_def
      empty_atom_def)

lemma state_ok_named_car: "state_ok sample_catalogue named_car"
  unfolding named_car_def by (rule state_ok_with_atom) (rule state_ok_two_cars)

text \<open>
  Claim C7.  A field atom packet (a type of the atom table other than the two position
  types) with negative \<^verbatim>\<open>len\<close> returns; afterwards the addressed atom carries
  \<open>packet.data\<close> as its colour and the text it had before the call (the empty text of a
  fresh atom where the car was not known), every other atom of the cars known before is
  as it was, and no position has changed.
\<close>

theorem colour_only_update:
  assumes "state_ok cat state" and "1 \<le> car packet"
    and "type packet \<noteq> CAR_POSITION_UPDATE cat" and "type packet \<noteq> CAR_POSITION_HISTORY cat"
    and "0 \<le> type packet" and "type packet < LAST_CAR_PACKET cat"
    and "len packet < 0"
  shows "\<exists>ev state'. handle_car_packet cat state packet = Inr (ev, state') \<and>
     atom_data (atom_of state' (car packet) (type packet)) = data packet \<and>
     atom_text (atom_of state' (car packet) (type packet)) =
       (if car packet \<le> num_cars state
        then atom_text (atom_of state (car packet) (type packet)) else []) \<and>
     (\<forall>c t. 1 \<le> c \<and> c \<le> num_cars state \<and> 0 \<le> t \<and> t < LAST_CAR_PACKET cat \<and>
            (c \<noteq> car packet \<or> t \<noteq> type packet)
        \<longrightarrow> atom_of state' c t = atom_of state c t) \<and>
     car_position state' =
       car_position state @ replicate (nat (car packet - num_cars state)) 0"
proof -
  let ?g = "entered cat state packet"
  let ?a = "(atom_of ?g (car packet) (type packet))\<lparr>atom_data := data packet\<rparr>"
  let ?s = "with_atom ?g (car packet) (type packet) ?a"
  have ok: "state_ok cat ?g" using assms(1) by (rule state_ok_entered)
  have le: "car packet \<le> num_cars ?g" by (simp add: num_cars_entered)
  have run: "handle_car_packet cat state packet =
      Inr ((if car packet > num_cars state then [ClearBoard] else []) @
             [UpdateCell (car packet) (type packet)], ?s)"
    using assms data_atom_colour_only [OF ok assms(2) le assms(5,6,7)]
    by (simp add: handle_car_packet_entered)
  note tab = data_atom_in_table [OF ok assms(2) le assms(5,6)]
  have own: "atom_of ?s (car packet) (type packet) = ?a"
    using tab by (rule atom_of_with_atom)
  have before: "atom_text (atom_of ?g (car packet) (type packet)) =
      (if car packet \<le> num_cars state
       then atom_text (atom_of state (car packet) (type packet)) else [])"
  proof (cases "car packet \<le> num_cars state")
    case True
    with assms show ?thesis by (simp add: atom_of_entered)
  next
    case False
    with assms have "atom_of ?g (car packet) (type packet) = empty_atom"
      by (intro atom_of_entered_new) auto
    with False show ?thesis by (simp add: empty_atom_def)
  qed
  have others: "atom_of ?s c t = atom_of state c t"
    if "1 \<le> c" "c \<le> num_cars state" "0 \<le> t" "c \<noteq> car packet \<or> t \<noteq> type packet"
    for c t
  proof -
    have "atom_of ?s c t = atom_of ?g c t"
      using that assms(2,5) by (intro atom_of_with_atom_other) auto
    also have "\<dots> = atom_of state c t" using that assms(1) by (simp add: atom_of_entered)
    finally show ?thesis .
  qed
  have pos: "car_position ?s =
      car_position state @ replicate (nat (car packet - num_cars state)) 0"
    by (simp add: with_atom_def car_position_entered)
  show ?thesis
    unfolding run using own before others pos by simp
qed

theorem colour_only_update_witness:
  "state_ok sample_catalogue named_car \<and> len recolour_name < 0 \<and>
   atom_of named_car 1 3 = \<lparr>atom_data = 1, atom_text = ascii ''ALO''\<rparr> \<and>
   (\<exists>ev state'. handle_car_packet sample_catalogue named_car recolour_name = Inr (ev, state') \<and>
      atom_data (atom_of state' 1 3) = 5 \<and> atom_text (atom_of state' 1 3) = ascii ''ALO'')"
proof -
  have before: "atom_of named_car 1 3 = \<lparr>atom_data = 1, atom_text = ascii ''ALO''\<rparr>"
    by (simp add: named_car_def with_atom_def atom_of_def two_cars_def start_state_def
        new_atoms_def sample_catalogue_def)
  have n: "num_cars named_car = 2"
    by (simp add: named_car_def with_atom_def two_cars_def start_state_def)
  have h: "1 \<le> car recolour_name"
    "type recolour_name \<noteq> CAR_POSITION_UPDATE sample_catalogue"
    "type recolour_name \<noteq> CAR_POSITION_HISTORY sample_catalogue"
    "0 \<le> type recolour_name" "type recolour_name < LAST_CAR_PACKET sample_catalogue"
    "len recolour_name < 0"
    by (simp_all add: recolour_name_def sample_catalogue_def)
  from colour_only_update [OF state_ok_named_car h]
  obtain ev state' where
    run: "handle_car_packet sample_catalogue named_car recolour_name = Inr (ev, state')" and
    colour: "atom_data (atom_of state' (car recolour_name) (type recolour_name)) =
      data recolour_name" and
    kept: "atom_text (atom_of state' (car recolour_name) (type recolour_name)) =
      (if car recolour_name \<le> num_cars named_car
       then atom_text (atom_of named_car (car recolour_name) (type recolour_name)) else [])"
    by blast
  have p: "car recolour_name = 1" "type recolour_name = 3" "data recolour_name = 5"
    by (simp_all add: recolour_name_def)
  from colour kept have "atom_data (atom_of state' 1 3) = 5"
    "atom_text (atom_of state' 1 3) = ascii ''ALO''"
    unfolding p n before by simp_all
  with run before h state_ok_named_car show ?thesis by blast
qed

section \<open>Text that does not fit\<close>

lemma strcpy_long_name: "strcpy 16 (ascii ''ABCDEFGHIJKLMNOP'' @ [0]) = Inl WriteOutOfBounds"
  by (simp add: strcpy_def c_string_def ascii_def)

text \<open>
  Claim C5.  The claim asks that a text too long for the atom's buffer be rejected and never
  written past the buffer.  The handler copies with \<^verbatim>\<open>strcpy\<close> and checks no length: with
  a 16-byte buffer, a payload of 16 characters and its NUL needs 17 bytes, and the copy runs
  over the end of the buffer.
\<close>

theorem oversized_text_overruns_buffer:
  "handle_car_packet sample_catalogue two_cars long_name = Inl WriteOutOfBounds"
proof -
  have h: "1 \<le> car long_name" "car long_name \<le> num_cars two_cars"
    "0 \<le> type long_name" "type long_name < LAST_CAR_PACKET sample_catalogue"
    "0 \<le> len long_name"
    by (simp_all add: long_name_def sample_catalogue_def two_cars_def start_state_def)
  have e: "entered sample_catalogue two_cars long_name = two_cars"
    using h by (simp add: entered_def)
  have t: "type long_name \<noteq> CAR_POSITION_UPDATE sample_catalogue"
    "type long_name \<noteq> CAR_POSITION_HISTORY sample_catalogue"
    by (simp_all add: long_name_def sample_catalogue_def)
  have d: "data_atom sample_catalogue two_cars long_name = Inl WriteOutOfBounds"
    unfolding data_atom_text [OF state_ok_two_cars h]
    using strcpy_long_name by (simp add: long_name_def sample_catalogue_def)
  show ?thesis
    unfolding handle_car_packet_entered [OF state_ok_two_cars] e using d t by simp
qed


section \<open>A car seen for the first time\<close>

lemma new_atoms_empty: "new_atoms cat = replicate (nat (LAST_CAR_PACKET cat)) empty_atom"
  by (simp add: new_atoms_def empty_atom_def)

lemma grown_new:
  assumes "state_ok cat state" "num_cars state < c" "c \<le> n"
  shows "position_of (grown cat state n) c = 0"
    and "car_info (grown cat state n) ! nat (c - 1) = new_atoms cat"
  using assms by (auto simp: position_of_def grown_def nth_append state_ok_def)

lemma grown_old:
  assumes "state_ok cat state" "1 \<le> c" "c \<le> num_cars state"
  shows "position_of (grown cat state n) c = position_of state c"
    and "car_info (grown cat state n) ! nat (c - 1) = car_info state ! nat (c - 1)"
  using assms by (auto simp: position_of_def grown_def nth_append state_ok_def)

lemma position_of_with_atom: "position_of (with_atom state c t a) c' = position_of state c'"
  by (simp add: position_of_def with_atom_def)

lemma car_info_with_atom_other:
  "nat (c' - 1) \<noteq> nat (c - 1) \<Longrightarrow>
   car_info (with_atom state c t a) ! nat (c' - 1) = car_info state ! nat (c' - 1)"
  by (simp add: with_atom_def)

text \<open>What the \<^verbatim>\<open>switch\<close> does to the table it was entered with, for a car of that table.\<close>

lemma position_update_car: "position_update state packet = Inr r \<Longrightarrow> 1 \<le> car packet"
  by (simp add: position_update_def split: if_splits)

lemma switch_cases:
  assumes ok: "state_ok cat state"
    and run: "handle_car_packet cat state packet = Inr (ev, state')"
  obtains
    (update) "type packet = CAR_POSITION_UPDATE cat" "1 \<le> car packet"
      "state' = (entered cat state packet)\<lparr>car_position :=
         (map (\<lambda>q. if q = data packet then 0 else q) (car_position (entered cat state packet)))
           [nat (car packet - 1) := data packet]\<rparr>"
  | (history) "type packet \<noteq> CAR_POSITION_UPDATE cat" "type packet = CAR_POSITION_HISTORY cat"
      "state' = entered cat state packet"
  | (atom) a where "type packet \<noteq> CAR_POSITION_UPDATE cat"
      "type packet \<noteq> CAR_POSITION_HISTORY cat"
      "state' = with_atom (entered cat state packet) (car packet) (type packet) a"
      "atom_data a = data packet" "0 \<le> type packet"
      "nat (car packet - 1) < length (car_info (entered cat state packet))"
      "nat (type packet) < length (car_info (entered cat state packet) ! nat (car packet - 1))"
      "UpdateCell (car packet) (type packet) \<in> set ev" "1 \<le> car packet"
proof (cases "type packet = CAR_POSITION_UPDATE cat")
  case True
  with run ok obtain r where "position_update (entered cat state packet) packet = Inr r"
    by (auto simp: handle_car_packet_entered split: sum.splits)
  then have car: "1 \<le> car packet" by (rule position_update_car)
  with run handle_position_update [OF ok True car] True show ?thesis
    by (intro update) auto
next
  case False
  note not_update = this
  show ?thesis
  proof (cases "type packet = CAR_POSITION_HISTORY cat")
    case True
    with run not_update ok show ?thesis
      by (intro history) (auto simp: handle_car_packet_entered)
  next
    case False
    with run not_update ok obtain ev' where
      d: "data_atom cat (entered cat state packet) packet = Inr (ev', state')"
      and ev: "ev = (if car packet > num_cars state then [ClearBoard] else []) @ ev'"
      by (auto simp: handle_car_packet_entered split: sum.splits)
    from data_atom_result [OF d] ev not_update False show ?thesis
      by (elim exE conjE, intro atom) auto
  qed
qed

text \<open>
  Claim C3, as the code has it.  For a car-scoped packet with \<open>car = N > num_cars\<close> the
  growth step returns the table grown to \<open>N\<close>: \<open>num_cars = N\<close>, every car in
  \<open>(old num_cars, N]\<close> at position 0 with a full row of empty atoms, and the cars known
  before as they were.  The packet's own assignment follows in the same call: when
  \<^verbatim>\<open>handle_car_packet\<close> returns, \<open>num_cars = N\<close>, the cars strictly between the old
  \<open>num_cars\<close> and \<open>N\<close> are still at position 0 with empty atoms, and car \<open>N\<close> is empty
  except for the one cell the packet writes (its position for a position update, the
  addressed atom for a field atom).
\<close>

theorem growth_on_new_car:
  assumes "state_ok cat state" and "num_cars state < car packet"
  shows "grow_cars cat state (car packet) = Inr ([ClearBoard], grown cat state (car packet)) \<and>
     num_cars (grown cat state (car packet)) = car packet \<and>
     (\<forall>c. num_cars state < c \<and> c \<le> car packet \<longrightarrow>
        position_of (grown cat state (car packet)) c = 0 \<and>
        car_info (grown cat state (car packet)) ! nat (c - 1) =
          replicate (nat (LAST_CAR_PACKET cat)) empty_atom) \<and>
     (\<forall>c. 1 \<le> c \<and> c \<le> num_cars state \<longrightarrow>
        position_of (grown cat state (car packet)) c = position_of state c \<and>
        car_info (grown cat state (car packet)) ! nat (c - 1) = car_info state ! nat (c - 1)) \<and>
     (\<forall>ev state'. handle_car_packet cat state packet = Inr (ev, state') \<longrightarrow>
        num_cars state' = car packet \<and>
        (\<forall>c. num_cars state < c \<and> c < car packet \<longrightarrow>
           position_of state' c = 0 \<and>
           car_info state' ! nat (c - 1) = replicate (nat (LAST_CAR_PACKET cat)) empty_atom) \<and>
        position_of state' (car packet) =
          (if type packet = CAR_POSITION_UPDATE cat then data packet else 0) \<and>
        (\<forall>t. 0 \<le> t \<and> t < LAST_CAR_PACKET cat \<and>
              (type packet = CAR_POSITION_UPDATE cat \<or>
               type packet = CAR_POSITION_HISTORY cat \<or> t \<noteq> type packet)
           \<longrightarrow> atom_of state' (car packet) t = empty_atom))"
proof -
  let ?n = "car packet"
  let ?g = "grown cat state ?n"
  note ok = assms(1)
  from assms have car: "1 \<le> ?n" by (simp add: state_ok_def)
  have e: "entered cat state packet = ?g" using assms(2) by (simp add: entered_def)
  have okg: "state_ok cat ?g" using assms by (rule state_ok_grown)
  have ng: "num_cars ?g = ?n" by (simp add: grown_def)
  have leng: "length (car_position ?g) = nat ?n" "length (car_info ?g) = nat ?n"
    using okg by (simp_all add: state_ok_def grown_def)
  have new: "position_of ?g c = 0 \<and>
      car_info ?g ! nat (c - 1) = replicate (nat (LAST_CAR_PACKET cat)) empty_atom"
    if "num_cars state < c" "c \<le> ?n" for c
    using grown_new [OF ok that] by (simp add: new_atoms_empty)
  have new_atom: "atom_of ?g ?n t = empty_atom" if "0 \<le> t" "t < LAST_CAR_PACKET cat" for t
    using atom_of_entered_new [OF ok assms(2) order_refl that] by (simp add: e)
  have after: "num_cars state' = ?n \<and>
      (\<forall>c. num_cars state < c \<and> c < ?n \<longrightarrow>
         position_of state' c = 0 \<and>
         car_info state' ! nat (c - 1) = replicate (nat (LAST_CAR_PACKET cat)) empty_atom) \<and>
      position_of state' ?n = (if type packet = CAR_POSITION_UPDATE cat then data packet else 0) \<and>
      (\<forall>t. 0 \<le> t \<and> t < LAST_CAR_PACKET cat \<and>
            (type packet = CAR_POSITION_UPDATE cat \<or>
             type packet = CAR_POSITION_HISTORY cat \<or> t \<noteq> type packet)
         \<longrightarrow> atom_of state' ?n t = empty_atom)"
    if run: "handle_car_packet cat state packet = Inr (ev, state')" for ev state'
    using ok run
  proof (cases rule: switch_cases)
    case update
    let ?f = "\<lambda>q. if q = data packet then 0 else q"
    have s: "state' = ?g\<lparr>car_position := (map ?f (car_position ?g))[nat (?n - 1) := data packet]\<rparr>"
      using update(3) by (simp add: e)
    have between: "position_of state' c = 0 \<and>
        car_info state' ! nat (c - 1) = replicate (nat (LAST_CAR_PACKET cat)) empty_atom"
      if c: "num_cars state < c" "c < ?n" for c
    proof -
      from c ok have i: "nat (c - 1) < length (car_position ?g)" "nat (c - 1) \<noteq> nat (?n - 1)"
        using leng by (auto simp: state_ok_def)
      from new [of c] c have "car_position ?g ! nat (c - 1) = 0"
        and "car_info ?g ! nat (c - 1) = replicate (nat (LAST_CAR_PACKET cat)) empty_atom"
        by (simp_all add: position_of_def)
      with i show ?thesis by (simp add: s position_of_def)
    qed
    have own: "position_of state' ?n = data packet"
      using car leng by (simp add: s position_of_def)
    have atoms: "atom_of state' ?n t = atom_of ?g ?n t" for t
      by (simp add: s atom_of_def)
    have "num_cars state' = ?n" by (simp add: s ng)
    then show ?thesis
      using between own update(1) new_atom by (simp add: atoms)
  next
    case history
    then have s: "state' = ?g" by (simp add: e)
    show ?thesis
      using new new_atom history(1) assms(2) ng by (simp add: s)
  next
    case (atom a)
    then have s: "state' = with_atom ?g ?n (type packet) a" by (simp add: e)
    have between: "position_of state' c = 0 \<and>
        car_info state' ! nat (c - 1) = replicate (nat (LAST_CAR_PACKET cat)) empty_atom"
      if c: "num_cars state < c" "c < ?n" for c
    proof -
      from c ok have "nat (c - 1) \<noteq> nat (?n - 1)" by (auto simp: state_ok_def)
      with new [of c] c show ?thesis
        by (simp add: s position_of_with_atom car_info_with_atom_other)
    qed
    have own: "position_of state' ?n = 0"
      using new [of ?n] assms(2) by (simp add: s position_of_with_atom)
    have atoms: "atom_of state' ?n t = empty_atom"
      if "0 \<le> t" "t < LAST_CAR_PACKET cat" "t \<noteq> type packet" for t
    proof -
      have "atom_of state' ?n t = atom_of ?g ?n t"
        unfolding s using car atom(5) that by (intro atom_of_with_atom_other) auto
      with new_atom that show ?thesis by simp
    qed
    have "num_cars state' = ?n" by (simp add: s with_atom_def ng)
    then show ?thesis
      using between own atoms atom(1,2) by simp
  qed
  show ?thesis
    using grow_cars_run [OF assms] new grown_old [OF ok] after ng by simp
qed

theorem growth_on_new_car_witness:
  "state_ok sample_catalogue start_state \<and> num_cars start_state < car assign_car2_row3 \<and>
   grow_cars sample_catalogue start_state 2 =
     Inr ([ClearBoard], grown sample_catalogue start_state 2) \<and>
   num_cars (grown sample_catalogue start_state 2) = 2 \<and>
   position_of (grown sample_catalogue start_state 2) 1 = 0 \<and>
   car_info (grown sample_catalogue start_state 2) ! 1 = replicate 16 empty_atom"
proof -
  have h: "num_cars start_state < car assign_car2_row3"
    by (simp add: start_state_def assign_car2_row3_def)
  have c: "car assign_car2_row3 = 2" by (simp add: assign_car2_row3_def)
  have n: "num_cars start_state = 0" by (simp add: start_state_def)
  have l: "nat (LAST_CAR_PACKET sample_catalogue) = 16" by (simp add: sample_catalogue_def)
  from growth_on_new_car [OF state_ok_start h, of sample_catalogue]
  have g: "grow_cars sample_catalogue start_state 2 =
        Inr ([ClearBoard], grown sample_catalogue start_state 2)"
    and m: "num_cars (grown sample_catalogue start_state 2) = 2"
    and new: "\<forall>c. 0 < c \<and> c \<le> 2 \<longrightarrow>
        position_of (grown sample_catalogue start_state 2) c = 0 \<and>
        car_info (grown sample_catalogue start_state 2) ! nat (c - 1) =
          replicate 16 empty_atom"
    unfolding c n l by blast+
  from new [rule_format, of 1] new [rule_format, of 2] g m h state_ok_start
  show ?thesis by simp
qed

text \<open>
  Claim C3 as stated fails at the car the packet is about: a position update for the
  unknown car 1 with row 5 grows the table to one car and leaves that car, which lies in
  \<open>(old num_cars, N] = (0, 1]\<close>, on row 5, not on row 0.
\<close>

theorem new_car_takes_its_row:
  "num_cars start_state < car first_car_row5 \<and>
   handle_car_packet sample_catalogue start_state first_car_row5 =
     Inr ([ClearBoard, ClearCar 1, UpdateCar 1],
          start_state\<lparr>car_position := [5], car_info := [new_atoms sample_catalogue],
            num_cars := 1\<rparr>) \<and>
   position_of
     (start_state\<lparr>car_position := [5], car_info := [new_atoms sample_catalogue],
        num_cars := 1\<rparr>) 1 = 5"
proof -
  have h: "type first_car_row5 = CAR_POSITION_UPDATE sample_catalogue" "1 \<le> car first_car_row5"
    by (simp_all add: first_car_row5_def sample_catalogue_def)
  show ?thesis
    unfolding handle_position_update [OF state_ok_start h]
    by (simp add: entered_def grown_def first_car_row5_def start_state_def position_of_def)
qed


section \<open>The loops of handle\_system\_packet\<close>

lemma to_unsigned_nat: "0 \<le> x \<Longrightarrow> x < 2 ^ 32 \<Longrightarrow> to_unsigned x = nat x"
  by (simp add: to_unsigned_def unat_eq_nat_uint uint_word_of_int take_bit_eq_mod)

lemma to_unsigned_len:
  "0 \<le> len packet \<Longrightarrow> payload_ok packet \<Longrightarrow> to_unsigned (len packet) = nat (len packet)"
  by (rule to_unsigned_nat) (simp_all add: payload_ok_def)

lemma len_in_payload:
  "payload_ok packet \<Longrightarrow> nat (len packet) \<le> length (payload packet)"
  by (auto simp: payload_ok_def)

lemma event_number_run:
  "n \<le> length pl \<Longrightarrow>
   event_number pl n i number =
     Inr (foldl (\<lambda>number b. number * 10 + (ucast b - 48)) number (take (n - i) (drop i pl)))"
proof (induction pl n i number rule: event_number.induct)
  case (1 pl n i number)
  show ?case
  proof (cases "i < n")
    case False
    then show ?thesis by (simp add: event_number.simps)
  next
    case True
    with "1.prems" have inb: "i < length pl" by simp
    have split: "take (n - i) (drop i pl) = pl ! i # take (n - Suc i) (drop (Suc i) pl)"
      using True inb by (simp add: take_Suc_Cons [symmetric] Cons_nth_drop_Suc Suc_diff_Suc
          del: take_Suc_Cons)
    have "event_number pl n i number =
        event_number pl n (Suc i) (number * 10 + (ucast (pl ! i) - 48))"
      using True inb by (subst event_number.simps) simp
    also note "1.IH" [OF True inb "1.prems"]
    finally show ?thesis by (simp add: split)
  qed
qed

lemma key_frame_number_run:
  "i \<le> length pl \<Longrightarrow>
   key_frame_number pl i number =
     Inr (foldr (\<lambda>b number. push_bit 8 number OR ucast b) (take i pl) number)"
proof (induction i arbitrary: number)
  case 0
  show ?case by simp
next
  case (Suc i)
  then have inb: "i < length pl" by simp
  with Suc.IH [of "push_bit 8 number OR ucast (pl ! i)"] show ?case
    by (simp add: take_Suc_conv_app_nth)
qed

lemma session_clock_run:
  "n \<le> length pl \<Longrightarrow>
   session_clock pl n i acc = Inr (foldl clock_step acc (take (n - i) (drop i pl)))"
proof (induction pl n i acc rule: session_clock.induct)
  case (1 pl n i tot number)
  show ?case
  proof (cases "i < n")
    case False
    then show ?thesis by (simp add: session_clock.simps)
  next
    case True
    with "1.prems" have inb: "i < length pl" by simp
    have split: "take (n - i) (drop i pl) = pl ! i # take (n - Suc i) (drop (Suc i) pl)"
      using True inb by (simp add: take_Suc_Cons [symmetric] Cons_nth_drop_Suc Suc_diff_Suc
          del: take_Suc_Cons)
    show ?thesis
    proof (cases "pl ! i = 58")
      case True
      have "session_clock pl n i (tot, number) =
          session_clock pl n (Suc i) (tot * 60 + number, 0)"
        using \<open>i < n\<close> inb True by (subst session_clock.simps) simp
      also note "1.IH"(1) [OF \<open>i < n\<close> inb True "1.prems"]
      finally show ?thesis using True by (simp add: split clock_step_def)
    next
      case False
      have "session_clock pl n i (tot, number) =
          session_clock pl n (Suc i) (tot, number * 10 + (ucast (pl ! i) - 48))"
        using \<open>i < n\<close> inb False by (subst session_clock.simps) simp
      also note "1.IH"(2) [OF \<open>i < n\<close> inb False "1.prems"]
      finally show ?thesis using False by (simp add: split clock_step_def)
    qed
  qed
qed

section \<open>The arms of handle\_system\_packet\<close>

lemma handle_event_id:
  assumes "type packet = SYS_EVENT_ID cat" "0 \<le> len packet" "payload_ok packet"
  shows "handle_system_packet cat env state packet =
     Inr ([ObtainDecryptionKey (host state) (decimal_value (drop 1 (announced packet)))
             (cookie state),
           ResetDecryption, ClearBoard,
           Info 3 (BeginEvent (decimal_value (drop 1 (announced packet))) (data packet))],
          reset_decryption env
            (state\<lparr>key := obtain_decryption_key env (host state)
                             (decimal_value (drop 1 (announced packet))) (cookie state),
                   event_no := decimal_value (drop 1 (announced packet)),
                   event_type := data packet,
                   epoch_time := 0,
                   remaining_time := 0,
                   lap := 0,
                   num_cars := 0,
                   car_position := [],
                   car_info := []\<rparr>))"
proof -
  have "event_number (payload packet) (to_unsigned (len packet)) 1 0 =
      Inr (decimal_value (drop 1 (announced packet)))"
    unfolding to_unsigned_len [OF assms(2,3)]
    by (subst event_number_run [OF len_in_payload [OF assms(3)]])
      (simp add: decimal_value_def announced_def drop_take)
  with assms(1) show ?thesis by (simp add: handle_system_packet_def)
qed

lemma handle_key_frame:
  assumes "catalogue_ok cat" "type packet = SYS_KEY_FRAME cat" "0 \<le> len packet"
    "payload_ok packet"
  shows "handle_system_packet cat env state packet =
     (if frame state = 0 then
        Inr ([ResetDecryption,
              ObtainKeyFrame (host state) (little_endian (announced packet)),
              ResetDecryption],
             reset_decryption env
               (obtain_key_frame env (host state) (little_endian (announced packet))
                  ((reset_decryption env state)\<lparr>frame := little_endian (announced packet)\<rparr>)))
      else Inr ([ResetDecryption],
                (reset_decryption env state)\<lparr>frame := little_endian (announced packet)\<rparr>))"
proof -
  have "key_frame_number (payload packet) (to_unsigned (len packet)) 0 =
      Inr (little_endian (announced packet))"
    unfolding to_unsigned_len [OF assms(3,4)]
    by (subst key_frame_number_run [OF len_in_payload [OF assms(4)]])
      (simp add: little_endian_def announced_def)
  moreover have "type packet \<noteq> SYS_EVENT_ID cat"
    using assms(1,2) by (auto simp: catalogue_ok_def)
  ultimately show ?thesis
    using assms(2) by (simp add: handle_system_packet_def reset_decryption_def Let_def)
qed

lemma handle_session_clock:
  assumes "catalogue_ok cat" "type packet = SYS_WEATHER cat" "data packet = 0"
    "0 < len packet" "payload_ok packet"
  shows "handle_system_packet cat env state packet =
     Inr ([ClosePopup, UpdateTime],
          state\<lparr>epoch_time := (if epoch_time state \<noteq> 0 then time_now env else 0),
                remaining_time := duration (announced packet)\<rparr>)"
proof -
  from assms(4) have nonneg: "0 \<le> len packet" by simp
  have "session_clock (payload packet) (to_unsigned (len packet)) 0 (0, 0) =
      Inr (foldl clock_step (0, 0) (announced packet))"
    unfolding to_unsigned_len [OF nonneg assms(5)]
    by (subst session_clock_run [OF len_in_payload [OF assms(5)]]) (simp add: announced_def)
  moreover have "type packet \<noteq> SYS_EVENT_ID cat" "type packet \<noteq> SYS_KEY_FRAME cat"
    using assms(1,2) by (auto simp: catalogue_ok_def)
  ultimately show ?thesis
    using assms(2,3,4)
    by (simp add: handle_system_packet_def duration_def Let_def split: prod.splits)
qed

lemma handle_clock_no_payload:
  assumes "catalogue_ok cat" "type packet = SYS_WEATHER cat" "data packet = 0"
    "len packet \<le> 0"
  shows "handle_system_packet cat env state packet =
     Inr ([ClosePopup, UpdateTime], state\<lparr>epoch_time := time_now env\<rparr>)"
proof -
  have "type packet \<noteq> SYS_EVENT_ID cat" "type packet \<noteq> SYS_KEY_FRAME cat"
    using assms(1,2) by (auto simp: catalogue_ok_def)
  then show ?thesis using assms(2,3,4) by (simp add: handle_system_packet_def)
qed


section \<open>Session start\<close>

lemma catalogue_sample_fields:
  "SYS_EVENT_ID sample_catalogue = 1" "SYS_KEY_FRAME sample_catalogue = 2"
  "SYS_WEATHER sample_catalogue = 9" "SYS_TRACK_STATUS sample_catalogue = 11"
  "SYS_COPYRIGHT sample_catalogue = 12" "SYS_NOTICE sample_catalogue = 6"
  "CAR_POSITION_UPDATE sample_catalogue = 0" "CAR_POSITION_HISTORY sample_catalogue = 15"
  "LAST_CAR_PACKET sample_catalogue = 16" "TEXT_SIZE sample_catalogue = 16"
  by (simp_all add: sample_catalogue_def)

text \<open>
  The session start of a packet that carries its payload.  A \<^verbatim>\<open>SYS_EVENT_ID\<close> packet with
  \<open>0 \<le> len\<close> whose payload array holds the \<open>len\<close> bytes returns; afterwards
  \<open>event_no\<close> is the decimal numeral of the payload bytes \<open>1..len-1\<close>, \<open>event_type\<close> is
  \<open>packet.data\<close>, \<open>epoch_time\<close>, \<open>remaining_time\<close>, \<open>lap\<close> and \<open>num_cars\<close> are 0, both
  entity tables are gone, and the handler has called the decryption reset exactly once.
\<close>

theorem session_start_resets:
  assumes "type packet = SYS_EVENT_ID cat" and "0 \<le> len packet" and "payload_ok packet"
  shows "\<exists>ev state'. handle_system_packet cat env state packet = Inr (ev, state') \<and>
     event_no state' = decimal_value (drop 1 (announced packet)) \<and>
     event_type state' = data packet \<and>
     epoch_time state' = 0 \<and> remaining_time state' = 0 \<and> lap state' = 0 \<and>
     num_cars state' = 0 \<and> car_position state' = [] \<and> car_info state' = [] \<and>
     decryption_resets ev = 1"
  unfolding handle_event_id [OF assms]
  by (simp add: reset_decryption_def decryption_resets_def)

theorem session_start_resets_witness:
  "type session_start_6245 = SYS_EVENT_ID sample_catalogue \<and>
   0 \<le> len session_start_6245 \<and> payload_ok session_start_6245 \<and>
   (\<exists>ev state'.
      handle_system_packet sample_catalogue sample_collab two_cars session_start_6245 =
        Inr (ev, state') \<and>
      event_no state' = 6245 \<and> num_cars state' = 0 \<and> car_position state' = [] \<and>
      decryption_resets ev = 1)"
proof -
  have h: "type session_start_6245 = SYS_EVENT_ID sample_catalogue"
    "0 \<le> len session_start_6245" "payload_ok session_start_6245"
    by (simp_all add: session_start_6245_def sample_catalogue_def payload_ok_def ascii_def)
  have v: "decimal_value (drop 1 (announced session_start_6245)) = 6245"
    by (simp add: decimal_value_def announced_def session_start_6245_def ascii_def)
  from session_start_resets [OF h, of sample_collab two_cars] h show ?thesis
    unfolding v by blast
qed

lemma event_number_overrun:
  "length pl < n \<Longrightarrow> i \<le> length pl \<Longrightarrow> event_number pl n i number = Inl ReadOutOfBounds"
proof (induction pl n i number rule: event_number.induct)
  case (1 pl n i number)
  show ?case
  proof (cases "i < length pl")
    case True
    with "1.prems" have "i < n" by simp
    with True "1.IH" "1.prems" show ?thesis by (subst event_number.simps) simp
  next
    case False
    with "1.prems" show ?thesis by (subst event_number.simps) simp
  qed
qed

text \<open>
  Claim C4.  The claim asks the reset of every \<^verbatim>\<open>SYS_EVENT_ID\<close> packet, and a packet may
  come with the length \<open>-1\<close> of no payload, which the data atom and the session clock test
  for (\<^verbatim>\<open>packet->len >= 0\<close>, \<^verbatim>\<open>packet->len > 0\<close>).  The event number loop does not: its
  counter is \<^verbatim>\<open>unsigned int\<close>, so the bound \<^verbatim>\<open>i < packet->len\<close> is compared as unsigned, that
  is against 4294967295, and the scan leaves the payload array.  The handler reaches no
  state at all, where the claim has \<open>event_no\<close> the numeral of no bytes and the session
  reset.
\<close>

theorem session_start_without_payload_overruns:
  "handle_system_packet sample_catalogue sample_collab start_state session_start_no_payload =
     Inl ReadOutOfBounds"
proof -
  have n: "to_unsigned (len session_start_no_payload) = 4294967295"
    by (simp add: session_start_no_payload_def to_unsigned_def unsigned_minus_1_eq_mask
        mask_eq_exp_minus_1)
  have "event_number (payload session_start_no_payload) 4294967295 1 0 = Inl ReadOutOfBounds"
    by (rule event_number_overrun) (simp_all add: session_start_no_payload_def ascii_def)
  then show ?thesis
    unfolding handle_system_packet_def n
    by (simp add: session_start_no_payload_def sample_catalogue_def)
qed

section \<open>The session clock\<close>

lemma duration_example: "duration (ascii ''1:02:03'') = 3723"
  by (simp add: duration_def clock_step_def ascii_def)

text \<open>
  Claim C9.  A \<^verbatim>\<open>SYS_WEATHER\<close> packet with sub-field 0 and \<open>len > 0\<close> (the payload array
  holding the \<open>len\<close> bytes) returns; \<open>remaining_time\<close> is the value of the spec's fold
  rule on the payload, \<open>epoch_time\<close> is the wall-clock time if it was non-zero before and
  stays 0 otherwise, nothing else changes, and the popup is closed and the time display
  refreshed.  The payload \<open>1:02:03\<close> gives 3723.
\<close>

theorem session_clock_parsed:
  assumes "catalogue_ok cat" and "type packet = SYS_WEATHER cat" and "data packet = 0"
    and "0 < len packet" and "payload_ok packet"
  shows "handle_system_packet cat env state packet =
     Inr ([ClosePopup, UpdateTime],
          state\<lparr>epoch_time := (if epoch_time state \<noteq> 0 then time_now env else 0),
                remaining_time := duration (announced packet)\<rparr>) \<and>
     duration (ascii ''1:02:03'') = 3723"
  using handle_session_clock [OF assms] duration_example by simp

theorem session_clock_parsed_witness:
  "catalogue_ok sample_catalogue \<and> type clock_1_02_03 = SYS_WEATHER sample_catalogue \<and>
   data clock_1_02_03 = 0 \<and> 0 < len clock_1_02_03 \<and> payload_ok clock_1_02_03 \<and>
   handle_system_packet sample_catalogue sample_collab running_state clock_1_02_03 =
     Inr ([ClosePopup, UpdateTime], running_state\<lparr>epoch_time := 1000, remaining_time := 3723\<rparr>) \<and>
   handle_system_packet sample_catalogue sample_collab start_state clock_1_02_03 =
     Inr ([ClosePopup, UpdateTime], start_state\<lparr>epoch_time := 0, remaining_time := 3723\<rparr>)"
proof -
  have h: "type clock_1_02_03 = SYS_WEATHER sample_catalogue" "data clock_1_02_03 = 0"
    "0 < len clock_1_02_03" "payload_ok clock_1_02_03"
    by (simp_all add: clock_1_02_03_def sample_catalogue_def payload_ok_def ascii_def)
  have a: "announced clock_1_02_03 = ascii ''1:02:03''"
    by (simp add: announced_def clock_1_02_03_def ascii_def)
  have e: "epoch_time running_state = 900" "epoch_time start_state = 0"
    "time_now sample_collab = 1000"
    by (simp_all add: running_state_def two_cars_def start_state_def sample_collab_def)
  from session_clock_parsed [OF catalogue_ok_sample h, of sample_collab running_state]
    session_clock_parsed [OF catalogue_ok_sample h, of sample_collab start_state]
    catalogue_ok_sample h
  show ?thesis unfolding a e by simp
qed

text \<open>
  Claim C10.  A \<^verbatim>\<open>SYS_WEATHER\<close> packet with sub-field 0 and \<open>len = 0\<close> takes the branch
  without payload: \<open>epoch_time\<close> becomes the wall-clock time and nothing else changes, so
  \<open>remaining_time\<close> is what it was; the result is the one of the same packet with the
  negative length \<open>-1\<close>.
\<close>

theorem empty_clock_payload_is_a_tick:
  assumes "catalogue_ok cat" and "type packet = SYS_WEATHER cat" and "data packet = 0"
    and "len packet = 0"
  shows "handle_system_packet cat env state packet =
       Inr ([ClosePopup, UpdateTime], state\<lparr>epoch_time := time_now env\<rparr>) \<and>
     remaining_time (state\<lparr>epoch_time := time_now env\<rparr>) = remaining_time state \<and>
     handle_system_packet cat env state (packet\<lparr>len := - 1\<rparr>) =
       handle_system_packet cat env state packet"
proof -
  have "handle_system_packet cat env state (packet\<lparr>len := - 1\<rparr>) =
      Inr ([ClosePopup, UpdateTime], state\<lparr>epoch_time := time_now env\<rparr>)"
    using assms by (intro handle_clock_no_payload) simp_all
  moreover have "handle_system_packet cat env state packet =
      Inr ([ClosePopup, UpdateTime], state\<lparr>epoch_time := time_now env\<rparr>)"
    using assms by (intro handle_clock_no_payload) simp_all
  ultimately show ?thesis by simp
qed

theorem empty_clock_payload_is_a_tick_witness:
  "catalogue_ok sample_catalogue \<and> type clock_empty = SYS_WEATHER sample_catalogue \<and>
   data clock_empty = 0 \<and> len clock_empty = 0 \<and>
   handle_system_packet sample_catalogue sample_collab running_state clock_empty =
     Inr ([ClosePopup, UpdateTime], running_state\<lparr>epoch_time := 1000\<rparr>) \<and>
   remaining_time (running_state\<lparr>epoch_time := 1000\<rparr>) = 10"
proof -
  have h: "type clock_empty = SYS_WEATHER sample_catalogue" "data clock_empty = 0"
    "len clock_empty = 0"
    by (simp_all add: clock_empty_def sample_catalogue_def)
  have e: "time_now sample_collab = 1000" "remaining_time running_state = 10"
    by (simp_all add: running_state_def sample_collab_def)
  from empty_clock_payload_is_a_tick [OF catalogue_ok_sample h, of sample_collab running_state]
    catalogue_ok_sample h
  show ?thesis unfolding e by simp
qed


section \<open>Packets outside the catalogues\<close>

lemma handle_unknown_system:
  assumes "type packet \<notin> {SYS_EVENT_ID cat, SYS_KEY_FRAME cat, SYS_WEATHER cat,
             SYS_TRACK_STATUS cat, SYS_COPYRIGHT cat, SYS_NOTICE cat}"
  shows "handle_system_packet cat env state packet = Inr ([], state)"
  using assms by (simp add: handle_system_packet_def)

lemma handle_weather_other:
  assumes "catalogue_ok cat" "type packet = SYS_WEATHER cat" "data packet \<noteq> 0"
  shows "handle_system_packet cat env state packet = Inr ([], state)"
proof -
  have "type packet \<noteq> SYS_EVENT_ID cat" "type packet \<noteq> SYS_KEY_FRAME cat"
    using assms(1,2) by (auto simp: catalogue_ok_def)
  then show ?thesis using assms(2,3) by (simp add: handle_system_packet_def)
qed

lemma handle_track_other:
  assumes "catalogue_ok cat" "type packet = SYS_TRACK_STATUS cat" "data packet \<noteq> 1"
  shows "handle_system_packet cat env state packet = Inr ([], state)"
proof -
  have "type packet \<noteq> SYS_EVENT_ID cat" "type packet \<noteq> SYS_KEY_FRAME cat"
    "type packet \<noteq> SYS_WEATHER cat"
    using assms(1,2) by (auto simp: catalogue_ok_def)
  then show ?thesis using assms(2,3) by (simp add: handle_system_packet_def)
qed

lemma handle_history_known_car:
  assumes "catalogue_ok cat" "type packet = CAR_POSITION_HISTORY cat"
    "car packet \<le> num_cars state"
  shows "handle_car_packet cat state packet = Inr ([], state)"
proof -
  have "type packet \<noteq> CAR_POSITION_UPDATE cat"
    using assms(1,2) by (auto simp: catalogue_ok_def)
  then show ?thesis using assms(2,3) by (simp add: handle_car_packet_def)
qed

lemma handle_other_car_type:
  assumes "state_ok cat state"
    "type packet \<noteq> CAR_POSITION_UPDATE cat" "type packet \<noteq> CAR_POSITION_HISTORY cat"
    "handle_car_packet cat state packet = Inr (ev, state')"
  shows "UpdateCell (car packet) (type packet) \<in> set ev \<and>
         atom_data (atom_of state' (car packet) (type packet)) = data packet"
  using assms(1,4)
proof (cases rule: switch_cases)
  case update
  with assms(2) show ?thesis by simp
next
  case history
  with assms(3) show ?thesis by simp
next
  case (atom a)
  from atom(3,4) atom_of_with_atom [OF atom(6,7)] atom(8) show ?thesis by simp
qed

text \<open>
  Claim C8, as the code has it.  The system reducer ignores what it does not know: a packet
  whose type is none of its six case labels, a weather packet for a sub-field other than
  0 and a track status packet for a sub-field other than 1 leave the state as it is and
  call no collaborator.  The car reducer has no such arm.  A position history packet for a
  known car is a no-operation; every car type other than the two position types is taken
  for a field atom: when the call returns, a cell update has been issued and the addressed
  atom carries \<open>packet.data\<close>.
\<close>

theorem unknown_system_packets_ignored:
  assumes "catalogue_ok cat"
  shows "(type packet \<notin> {SYS_EVENT_ID cat, SYS_KEY_FRAME cat, SYS_WEATHER cat,
                         SYS_TRACK_STATUS cat, SYS_COPYRIGHT cat, SYS_NOTICE cat}
            \<longrightarrow> handle_system_packet cat env state packet = Inr ([], state)) \<and>
         (type packet = SYS_WEATHER cat \<and> data packet \<noteq> 0
            \<longrightarrow> handle_system_packet cat env state packet = Inr ([], state)) \<and>
         (type packet = SYS_TRACK_STATUS cat \<and> data packet \<noteq> 1
            \<longrightarrow> handle_system_packet cat env state packet = Inr ([], state)) \<and>
         (type packet = CAR_POSITION_HISTORY cat \<and> car packet \<le> num_cars state
            \<longrightarrow> handle_car_packet cat state packet = Inr ([], state)) \<and>
         (state_ok cat state \<and>
          type packet \<noteq> CAR_POSITION_UPDATE cat \<and> type packet \<noteq> CAR_POSITION_HISTORY cat
            \<longrightarrow> (\<forall>ev state'. handle_car_packet cat state packet = Inr (ev, state') \<longrightarrow>
                   UpdateCell (car packet) (type packet) \<in> set ev \<and>
                   atom_data (atom_of state' (car packet) (type packet)) = data packet))"
  using handle_unknown_system [of packet cat env state]
    handle_weather_other [OF assms, of packet env state]
    handle_track_other [OF assms, of packet env state]
    handle_history_known_car [OF assms, of packet state]
    handle_other_car_type [of cat state packet]
  by blast

theorem unknown_system_packets_ignored_witness:
  "catalogue_ok sample_catalogue \<and>
   type unknown_system_type \<notin> {1, 2, 9, 11, 12, 6} \<and>
   handle_system_packet sample_catalogue sample_collab two_cars unknown_system_type =
     Inr ([], two_cars) \<and>
   type weather_other_field = 9 \<and> data weather_other_field \<noteq> 0 \<and>
   handle_system_packet sample_catalogue sample_collab two_cars weather_other_field =
     Inr ([], two_cars)"
proof -
  have u: "type unknown_system_type \<notin> {1, 2, 9, 11, 12, 6}"
    by (simp add: unknown_system_type_def)
  have w: "type weather_other_field = 9" "data weather_other_field \<noteq> 0"
    by (simp_all add: weather_other_field_def)
  from unknown_system_packets_ignored
         [OF catalogue_ok_sample, of unknown_system_type sample_collab two_cars]
    unknown_system_packets_ignored
         [OF catalogue_ok_sample, of weather_other_field sample_collab two_cars]
    u w catalogue_ok_sample
  show ?thesis unfolding catalogue_sample_fields by simp
qed

text \<open>
  Claim C8 as stated fails on the car side.  Type 16 is no enumerator of the sample
  catalogue (its atom rows have the 16 cells \<open>0..15\<close>); the handler takes it for a field
  atom all the same and assigns to cell 16 of the row of car 1, outside the row.  Type 14
  lies inside the row; the handler stores the colour 7 in that cell and issues a cell
  update, whatever the field means.
\<close>

theorem unknown_car_type_is_written:
  "handle_car_packet sample_catalogue two_cars unknown_car_type = Inl WriteOutOfBounds \<and>
   handle_car_packet sample_catalogue two_cars unnamed_car_type =
     Inr ([UpdateCell 1 14], with_atom two_cars 1 14 \<lparr>atom_data = 7, atom_text = []\<rparr>)"
  by (simp add: handle_car_packet_def data_atom_def unknown_car_type_def unnamed_car_type_def
      two_cars_def start_state_def sample_catalogue_def new_atoms_def with_atom_def Let_def)

section \<open>Key frames\<close>

lemma snapshot_requests_simps:
  "snapshot_requests [ResetDecryption, ObtainKeyFrame h n, ResetDecryption] = 1"
  "snapshot_requests [ResetDecryption] = 0"
  "snapshot_requests [ObtainDecryptionKey h n c, ResetDecryption, ClearBoard, Info l m] = 0"
  by (simp_all add: snapshot_requests_def)

text \<open>
  Claim C6, as the code has it, for packets that carry their payload (\<open>0 \<le> len\<close>, the
  array holding the \<open>len\<close> bytes).  Whether a \<^verbatim>\<open>SYS_KEY_FRAME\<close> packet asks for a snapshot
  is decided by the stored frame counter at that packet alone: with \<open>frame = 0\<close> the
  handler resets the decryption, stores the decoded number, asks for exactly one snapshot
  and resets the decryption again; with \<open>frame \<noteq> 0\<close> it asks for none and only resets the
  decryption and stores the number.  A \<^verbatim>\<open>SYS_EVENT_ID\<close> packet asks for no snapshot and
  leaves the frame counter as it is.
\<close>

theorem key_frame_bootstrap_by_counter:
  assumes "catalogue_ok cat" and "0 \<le> len packet" and "payload_ok packet"
  shows "(type packet = SYS_KEY_FRAME cat \<longrightarrow>
            handle_system_packet cat env state packet =
              (if frame state = 0 then
                 Inr ([ResetDecryption,
                       ObtainKeyFrame (host state) (little_endian (announced packet)),
                       ResetDecryption],
                      reset_decryption env
                        (obtain_key_frame env (host state) (little_endian (announced packet))
                           ((reset_decryption env state)
                              \<lparr>frame := little_endian (announced packet)\<rparr>)))
               else Inr ([ResetDecryption],
                         (reset_decryption env state)
                           \<lparr>frame := little_endian (announced packet)\<rparr>))) \<and>
         (type packet = SYS_KEY_FRAME cat \<longrightarrow>
            (\<exists>ev state'. handle_system_packet cat env state packet = Inr (ev, state') \<and>
               snapshot_requests ev = (if frame state = 0 then 1 else 0))) \<and>
         (type packet = SYS_EVENT_ID cat \<longrightarrow>
            (\<exists>ev state'. handle_system_packet cat env state packet = Inr (ev, state') \<and>
               snapshot_requests ev = 0 \<and> frame state' = frame state))"
proof (intro conjI impI)
  assume t: "type packet = SYS_KEY_FRAME cat"
  show "handle_system_packet cat env state packet =
      (if frame state = 0 then
         Inr ([ResetDecryption,
               ObtainKeyFrame (host state) (little_endian (announced packet)),
               ResetDecryption],
              reset_decryption env
                (obtain_key_frame env (host state) (little_endian (announced packet))
                   ((reset_decryption env state)
                      \<lparr>frame := little_endian (announced packet)\<rparr>)))
       else Inr ([ResetDecryption],
                 (reset_decryption env state)
                   \<lparr>frame := little_endian (announced packet)\<rparr>))"
    by (rule handle_key_frame [OF assms(1) t assms(2,3)])
  then show "\<exists>ev state'. handle_system_packet cat env state packet = Inr (ev, state') \<and>
      snapshot_requests ev = (if frame state = 0 then 1 else 0)"
    by (simp add: snapshot_requests_simps)
next
  assume t: "type packet = SYS_EVENT_ID cat"
  show "\<exists>ev state'. handle_system_packet cat env state packet = Inr (ev, state') \<and>
      snapshot_requests ev = 0 \<and> frame state' = frame state"
    unfolding handle_event_id [OF t assms(2,3)]
    by (simp add: snapshot_requests_simps reset_decryption_def)
qed

theorem key_frame_bootstrap_by_counter_witness:
  "catalogue_ok sample_catalogue \<and> 0 \<le> len key_frame_5 \<and> payload_ok key_frame_5 \<and>
   type key_frame_5 = SYS_KEY_FRAME sample_catalogue \<and> frame start_state = 0 \<and>
   (\<exists>ev state'.
      handle_system_packet sample_catalogue sample_collab start_state key_frame_5 =
        Inr (ev, state') \<and> snapshot_requests ev = 1)"
proof -
  have h: "0 \<le> len key_frame_5" "payload_ok key_frame_5"
    by (simp_all add: key_frame_5_def payload_ok_def)
  have t: "type key_frame_5 = SYS_KEY_FRAME sample_catalogue"
    by (simp add: key_frame_5_def sample_catalogue_def)
  have f: "frame start_state = 0" by (simp add: start_state_def)
  from key_frame_bootstrap_by_counter
         [OF catalogue_ok_sample h, of sample_collab start_state,
          THEN conjunct2, THEN conjunct1, rule_format, OF t]
  have "\<exists>ev state'.
      handle_system_packet sample_catalogue sample_collab start_state key_frame_5 =
        Inr (ev, state') \<and> snapshot_requests ev = 1"
    unfolding f by simp
  with catalogue_ok_sample h t f show ?thesis by blast
qed

lemma sample_packets_ok:
  "0 \<le> len session_start_6245" "payload_ok session_start_6245"
  "type session_start_6245 = SYS_EVENT_ID sample_catalogue"
  "0 \<le> len session_start_6246" "payload_ok session_start_6246"
  "type session_start_6246 = SYS_EVENT_ID sample_catalogue"
  "0 \<le> len key_frame_5" "payload_ok key_frame_5"
  "type key_frame_5 = SYS_KEY_FRAME sample_catalogue"
  "0 \<le> len key_frame_6" "payload_ok key_frame_6"
  "type key_frame_6 = SYS_KEY_FRAME sample_catalogue"
  by (simp_all add: session_start_6245_def session_start_6246_def key_frame_5_def
      key_frame_6_def payload_ok_def ascii_def sample_catalogue_def)

text \<open>
  Claim C6 as stated fails at the second session of a feed.  The first session's key frame
  marker 5 asks for the snapshot and leaves \<open>frame = 5\<close>; the start of the next session
  does not clear the counter, so that session's first (and only) key frame marker, the
  fourth packet of the feed, asks for nothing.
\<close>

theorem second_session_gets_no_snapshot:
  "requests_per_packet sample_catalogue sample_collab start_state two_sessions =
     Inr [0, 1, 0, 0, 0]"
proof -
  let ?s1 = "reset_decryption sample_collab
      (start_state\<lparr>key := 0, event_no := 6245, event_type := 1, epoch_time := 0,
         remaining_time := 0, lap := 0, num_cars := 0, car_position := [], car_info := []\<rparr>)"
  have v: "decimal_value (drop 1 (announced session_start_6245)) = 6245"
    "decimal_value (drop 1 (announced session_start_6246)) = 6246"
    "little_endian (announced key_frame_5) = 5"
    "little_endian (announced key_frame_6) = 6"
    by (simp_all add: decimal_value_def little_endian_def announced_def
        session_start_6245_def session_start_6246_def key_frame_5_def key_frame_6_def
        ascii_def)
  note ev = handle_event_id [OF sample_packets_ok(3,1,2)]
    handle_event_id [OF sample_packets_ok(6,4,5)]
  note kf = handle_key_frame [OF catalogue_ok_sample sample_packets_ok(9,7,8)]
    handle_key_frame [OF catalogue_ok_sample sample_packets_ok(12,10,11)]
  show ?thesis
    unfolding requests_per_packet_def two_sessions_def
    by (simp add: ev kf v snapshot_requests_def reset_decryption_def
        sample_collab_def start_state_def)
qed


section \<open>Board rows\<close>

lemma rows_distinct_append_zeros:
  assumes "rows_distinct state"
  shows "rows_distinct (state\<lparr>car_position := car_position state @ replicate k 0\<rparr>)"
proof -
  have "(car_position state @ replicate k 0) ! i \<noteq> (car_position state @ replicate k 0) ! j"
    if "i < length (car_position state) + k" "j < length (car_position state) + k" "i \<noteq> j"
      "(car_position state @ replicate k 0) ! i \<noteq> 0" for i j
  proof -
    from that(1,4) have i: "i < length (car_position state)" "car_position state ! i \<noteq> 0"
      by (auto simp: nth_append split: if_splits)
    show ?thesis
    proof (cases "j < length (car_position state)")
      case True
      with i that(3) assms show ?thesis by (simp add: nth_append rows_distinct_def)
    next
      case False
      with i that(2) show ?thesis by (simp add: nth_append)
    qed
  qed
  then show ?thesis by (simp add: rows_distinct_def)
qed

lemma rows_distinct_entered:
  "rows_distinct state \<Longrightarrow> rows_distinct (entered cat state packet)"
  using rows_distinct_append_zeros [of state "nat (car packet - num_cars state)"]
  by (simp add: entered_def grown_def rows_distinct_def)

lemma rows_distinct_assign:
  assumes "rows_distinct state" "k < length (car_position state)"
  shows "rows_distinct (state\<lparr>car_position :=
           (map (\<lambda>q. if q = d then 0 else q) (car_position state))[k := d]\<rparr>)"
proof -
  let ?pos = "car_position state"
  let ?new = "(map (\<lambda>q. if q = d then 0 else q) ?pos)[k := d]"
  have "?new ! i \<noteq> ?new ! j"
    if "i < length ?pos" "j < length ?pos" "i \<noteq> j" "?new ! i \<noteq> 0" for i j
  proof (cases "i = k")
    case True
    with that assms(2) have "?new ! i = d" "d \<noteq> 0" by auto
    moreover from True that have "?new ! j \<noteq> d" by auto
    ultimately show ?thesis by simp
  next
    case False
    with that have i: "?new ! i = ?pos ! i" "?pos ! i \<noteq> 0" "?pos ! i \<noteq> d"
      by (auto split: if_splits)
    show ?thesis
    proof (cases "j = k")
      case True
      with that assms(2) i show ?thesis by simp
    next
      case False
      with that have "?new ! j = 0 \<or> ?new ! j = ?pos ! j" by auto
      moreover from assms(1) that i have "?pos ! i \<noteq> ?pos ! j"
        by (simp add: rows_distinct_def)
      ultimately show ?thesis using i by auto
    qed
  qed
  then show ?thesis by (simp add: rows_distinct_def)
qed

lemma board_ok_car_packet:
  assumes "board_ok cat state" "handle_car_packet cat state packet = Inr (ev, state')"
  shows "board_ok cat state'"
proof -
  let ?g = "entered cat state packet"
  from assms(1) have ok: "state_ok cat state" and rd: "rows_distinct state"
    by (simp_all add: board_ok_def)
  have okg: "state_ok cat ?g" using ok by (rule state_ok_entered)
  have rdg: "rows_distinct ?g" using rd by (rule rows_distinct_entered)
  from ok assms(2) show ?thesis
  proof (cases rule: switch_cases)
    case update
    have "car packet \<le> num_cars ?g" by (simp add: num_cars_entered)
    with update(2) okg have k: "nat (car packet - 1) < length (car_position ?g)"
      by (auto simp: state_ok_def)
    from rows_distinct_assign [OF rdg k] okg k show ?thesis
      unfolding update(3) by (simp add: board_ok_def state_ok_def)
  next
    case history
    with okg rdg show ?thesis by (simp add: board_ok_def)
  next
    case (atom a)
    from state_ok_with_atom [OF okg] rdg show ?thesis
      unfolding atom(3) by (simp add: board_ok_def rows_distinct_def with_atom_def)
  qed
qed

lemma board_ok_fields:
  "board_ok cat (state\<lparr>key := k\<rparr>) = board_ok cat state"
  "board_ok cat (state\<lparr>decryption := d\<rparr>) = board_ok cat state"
  "board_ok cat (state\<lparr>frame := f\<rparr>) = board_ok cat state"
  "board_ok cat (state\<lparr>event_no := n\<rparr>) = board_ok cat state"
  "board_ok cat (state\<lparr>event_type := t\<rparr>) = board_ok cat state"
  "board_ok cat (state\<lparr>epoch_time := e\<rparr>) = board_ok cat state"
  "board_ok cat (state\<lparr>remaining_time := r\<rparr>) = board_ok cat state"
  "board_ok cat (state\<lparr>lap := l\<rparr>) = board_ok cat state"
  "board_ok cat (state\<lparr>flag := g\<rparr>) = board_ok cat state"
  by (simp_all add: board_ok_def state_ok_def rows_distinct_def)

lemma board_ok_cleared:
  "board_ok cat (state\<lparr>num_cars := 0, car_position := [], car_info := []\<rparr>)"
  by (simp add: board_ok_def state_ok_def rows_distinct_def)

lemma board_ok_system_packet:
  assumes "key_frame_keeps_board cat env" "board_ok cat state"
    "handle_system_packet cat env state packet = Inr (ev, state')"
  shows "board_ok cat state'"
proof -
  have kf: "board_ok cat (obtain_key_frame env h n s)" if "board_ok cat s" for h n s
    using assms(1) that by (simp add: key_frame_keeps_board_def)
  consider (event) "type packet = SYS_EVENT_ID cat"
    | (key) "type packet \<noteq> SYS_EVENT_ID cat" "type packet = SYS_KEY_FRAME cat"
    | (other) "type packet \<noteq> SYS_EVENT_ID cat" "type packet \<noteq> SYS_KEY_FRAME cat"
    by blast
  then show ?thesis
  proof cases
    case event
    with assms(3) obtain s where "state' = s\<lparr>decryption := decryption_start env\<rparr>"
      "board_ok cat s"
      by (auto simp: handle_system_packet_def reset_decryption_def board_ok_def state_ok_def
          rows_distinct_def split: sum.splits)
    then show ?thesis by (simp add: board_ok_fields)
  next
    case key
    with assms(3) obtain number where
      s: "state' = (if frame state = 0
            then reset_decryption env
                   (obtain_key_frame env (host state) number
                      ((reset_decryption env state)\<lparr>frame := number\<rparr>))
            else (reset_decryption env state)\<lparr>frame := number\<rparr>)"
      by (auto simp: handle_system_packet_def reset_decryption_def Let_def
          split: sum.splits if_splits)
    have "board_ok cat ((reset_decryption env state)\<lparr>frame := number\<rparr>)"
      using assms(2) by (simp add: board_ok_fields reset_decryption_def)
    from this kf [OF this] show ?thesis
      unfolding s by (simp add: board_ok_fields reset_decryption_def)
  next
    case other
    with assms(3) have "state' = state \<or> (\<exists>e. state' = state\<lparr>epoch_time := e\<rparr>) \<or>
        (\<exists>e r. state' = state\<lparr>epoch_time := e, remaining_time := r\<rparr>) \<or>
        (\<exists>g. state' = state\<lparr>flag := g\<rparr>)"
      by (auto simp: handle_system_packet_def split: sum.splits if_splits list.splits)
    with assms(2) show ?thesis by (auto simp: board_ok_fields)
  qed
qed

lemma reachable_board_ok:
  assumes "key_frame_keeps_board cat env" "reachable cat env state"
  shows "board_ok cat state"
  using assms(2)
proof (induction rule: reachable.induct)
  case (start state)
  then show ?case by (simp add: board_ok_def state_ok_def rows_distinct_def)
next
  case (car_packet state packet ev state')
  then show ?case by (blast intro: board_ok_car_packet)
next
  case (system_packet state packet ev state')
  with assms(1) show ?case by (blast intro: board_ok_system_packet)
qed

lemma filter_at_most_one:
  "distinct xs \<Longrightarrow> (\<And>x y. x \<in> set xs \<Longrightarrow> y \<in> set xs \<Longrightarrow> P x \<Longrightarrow> P y \<Longrightarrow> x = y) \<Longrightarrow>
   length (filter P xs) \<le> 1"
proof (induction xs)
  case Nil
  show ?case by simp
next
  case (Cons x xs)
  show ?case
  proof (cases "P x")
    case True
    have "filter P xs = []"
    proof (rule ccontr)
      assume "filter P xs \<noteq> []"
      then obtain y where y: "y \<in> set xs" "P y"
        by (metis filter_False)
      with Cons.prems(2) [of x y] True have "x = y" by simp
      with y Cons.prems(1) show False by simp
    qed
    with True show ?thesis by simp
  next
    case False
    with Cons show ?thesis by simp
  qed
qed

lemma board_ok_holders:
  assumes "board_ok cat state" "p \<noteq> 0"
  shows "length (holders state p) \<le> 1"
  unfolding holders_def
proof (rule filter_at_most_one)
  show "distinct [1..num_cars state]" by simp
next
  fix x y
  assume xy: "x \<in> set [1..num_cars state]" "y \<in> set [1..num_cars state]"
    and px: "position_of state x = p" and py: "position_of state y = p"
  from assms(1) have len: "length (car_position state) = nat (num_cars state)"
    and rd: "rows_distinct state"
    by (simp_all add: board_ok_def state_ok_def)
  from xy len have i: "nat (x - 1) < length (car_position state)"
    "nat (y - 1) < length (car_position state)" by auto
  show "x = y"
  proof (rule ccontr)
    assume "x \<noteq> y"
    with xy have "nat (x - 1) \<noteq> nat (y - 1)" by auto
    from rd [unfolded rows_distinct_def, rule_format, of "nat (x - 1)" "nat (y - 1)"] i this
      px py assms(2)
    show False by (simp add: position_of_def)
  qed
qed

lemma sample_collab_keeps_board: "key_frame_keeps_board cat sample_collab"
  by (simp add: key_frame_keeps_board_def sample_collab_def)

lemma reachable_car2_on_row3: "reachable sample_catalogue sample_collab car2_on_row3"
proof -
  have h: "type assign_car2_row3 = CAR_POSITION_UPDATE sample_catalogue" "1 \<le> car assign_car2_row3"
    by (simp_all add: assign_car2_row3_def sample_catalogue_def)
  have "handle_car_packet sample_catalogue start_state assign_car2_row3 =
      Inr ([ClearBoard, ClearCar 2, UpdateCar 2], car2_on_row3)"
    unfolding handle_position_update [OF state_ok_start h]
    by (simp add: entered_def grown_def assign_car2_row3_def start_state_def car2_on_row3_def
        numeral_2_eq_2)
  moreover have "reachable sample_catalogue sample_collab start_state"
    by (rule reachable.start) (simp_all add: start_state_def)
  ultimately show ?thesis by (rule reachable.car_packet [rotated])
qed

text \<open>
  Claim C1.  In every state the handlers can reach from an empty entity table, at most one
  car of \<open>[1, num_cars]\<close> stands on a board row \<open>p \<noteq> 0\<close>, and this still holds after any
  further car packet (a position update among them) or system packet that returns.  The
  key-frame collaborator, whose code is not at hand, is asked to keep the table well formed
  and its rows distinct, as it does when it replays packets through these handlers.
\<close>

theorem board_rows_unique:
  assumes "key_frame_keeps_board cat env" and "reachable cat env state" and "p \<noteq> 0"
  shows "length (holders state p) \<le> 1 \<and>
     (\<forall>packet ev state'.
        handle_car_packet cat state packet = Inr (ev, state') \<or>
        handle_system_packet cat env state packet = Inr (ev, state')
          \<longrightarrow> length (holders state' p) \<le> 1)"
proof (intro conjI allI impI)
  show "length (holders state p) \<le> 1"
    using reachable_board_ok [OF assms(1,2)] assms(3) by (rule board_ok_holders)
next
  fix packet ev state'
  assume "handle_car_packet cat state packet = Inr (ev, state') \<or>
      handle_system_packet cat env state packet = Inr (ev, state')"
  with assms(2) have "reachable cat env state'"
    by (blast intro: reachable.car_packet reachable.system_packet)
  from reachable_board_ok [OF assms(1) this] assms(3)
  show "length (holders state' p) \<le> 1" by (rule board_ok_holders)
qed

theorem board_rows_unique_witness:
  "key_frame_keeps_board sample_catalogue sample_collab \<and>
   reachable sample_catalogue sample_collab car2_on_row3 \<and>
   holders car2_on_row3 3 = [2] \<and> length (holders car2_on_row3 3) \<le> 1"
proof -
  have "holders car2_on_row3 3 = [2]"
    by (simp add: holders_def position_of_def car2_on_row3_def start_state_def upto.simps)
  with board_rows_unique [OF sample_collab_keeps_board reachable_car2_on_row3, of 3]
    sample_collab_keeps_board reachable_car2_on_row3
  show ?thesis by simp
qed


end
